theory Spec2Isabelle
  imports Complex_Main "HOL-Library.AList" "HOL-Library.Multiset"
begin

section \<open>Strings\<close>

text \<open>
  Strings are byte lists. The helpers below follow the JavaScript string methods the
  controller uses, on ASCII text: \<open>\s\<close> is the six ASCII white-space characters and
  \<open>toLowerCase\<close> maps \<open>A..Z\<close> to \<open>a..z\<close>. Numbers are reals: there is no
  rounding, no \<open>NaN\<close> and no \<open>Infinity\<close> (a division by zero gives \<open>0\<close> here; the
  properties that compare scores assume \<open>0 < k\<close> and positive ranks, where the source
  does not divide by zero either).
\<close>

definition is_space :: "char \<Rightarrow> bool" where
  "is_space c = (c \<in> set [CHR '' '', CHR 0x09, CHR 0x0A, CHR 0x0B, CHR 0x0C, CHR 0x0D])"

definition is_lower :: "char \<Rightarrow> bool" where
  "is_lower c = (c \<in> set ''abcdefghijklmnopqrstuvwxyz'')"

definition is_digit :: "char \<Rightarrow> bool" where
  "is_digit c = (c \<in> set ''0123456789'')"

definition lower_char :: "char \<Rightarrow> char" where
  "lower_char c =
     (case map_of (zip ''ABCDEFGHIJKLMNOPQRSTUVWXYZ'' ''abcdefghijklmnopqrstuvwxyz'') c of
        Some l \<Rightarrow> l
      | None \<Rightarrow> c)"

definition toLowerCase :: "string \<Rightarrow> string" where
  "toLowerCase s = map lower_char s"

definition trim :: "string \<Rightarrow> string" where
  "trim s = rev (dropWhile is_space (rev (dropWhile is_space s)))"

text \<open>\<open>s.replace(/[p]+/g, r)\<close>: every maximal run of characters in \<open>p\<close> becomes \<open>r\<close>.\<close>

function replace_runs :: "(char \<Rightarrow> bool) \<Rightarrow> string \<Rightarrow> string \<Rightarrow> string" where
  "replace_runs p r [] = []"
| "replace_runs p r (c # cs) =
     (if p c then r @ replace_runs p r (dropWhile p cs) else c # replace_runs p r cs)"
  by pat_completeness auto
termination
  by (relation "measure (\<lambda>(p, r, s). length s)")
     (auto simp: less_Suc_eq_le length_dropWhile_le)

text \<open>\<open>s.split(/[p]+/)\<close>: split at every maximal run of separator characters.\<close>

function split_runs :: "(char \<Rightarrow> bool) \<Rightarrow> string \<Rightarrow> string list" where
  "split_runs p s =
     (let tok = takeWhile (\<lambda>c. \<not> p c) s; rest = dropWhile (\<lambda>c. \<not> p c) s
      in if rest = [] then [tok] else tok # split_runs p (dropWhile p rest))"
  by pat_completeness auto
termination
proof (relation "measure (\<lambda>(p, s). length s)")
  show "wf (measure (\<lambda>(p, s). length s))" by simp
next
  fix p :: "char \<Rightarrow> bool" and s tok rest :: string
  assume r: "rest = dropWhile (\<lambda>c. \<not> p c) s" and ne: "rest \<noteq> []"
  from ne obtain c cs where rc: "rest = c # cs" by (cases rest) auto
  have eq: "dropWhile (\<lambda>c. \<not> p c) s = c # cs" using r rc by simp
  have "p c" using hd_dropWhile [of "\<lambda>c. \<not> p c" s] by (simp add: eq)
  then have "length (dropWhile p rest) \<le> length cs"
    using rc by (simp add: length_dropWhile_le)
  moreover have "length rest \<le> length s"
    unfolding r by (rule length_dropWhile_le)
  ultimately have "length (dropWhile p rest) < length s" using rc by simp
  then show "((p, dropWhile p rest), (p, s)) \<in> measure (\<lambda>(p, s). length s)" by simp
qed

text \<open>\<open>s.split(/a|b/)\<close> for single-character separators: one cut per separator.\<close>

fun split_chars :: "(char \<Rightarrow> bool) \<Rightarrow> string \<Rightarrow> string list" where
  "split_chars p [] = [[]]"
| "split_chars p (c # cs) =
     (case split_chars p cs of
        [] \<Rightarrow> (if p c then [[], []] else [[c]])
      | t # ts \<Rightarrow> (if p c then [] # t # ts else (c # t) # ts))"

fun join :: "string \<Rightarrow> string list \<Rightarrow> string" where
  "join sep [] = []"
| "join sep [s] = s"
| "join sep (s # t # ts) = s @ sep @ join sep (t # ts)"

definition startsWith :: "string \<Rightarrow> string \<Rightarrow> bool" where
  "startsWith s pre = (take (length pre) s = pre)"

definition endsWith :: "string \<Rightarrow> string \<Rightarrow> bool" where
  "endsWith s suf = (length suf \<le> length s \<and> drop (length s - length suf) s = suf)"

section \<open>Retrieval fusion helpers\<close>

subsection \<open>textSim\<close>

definition toTokens :: "string \<Rightarrow> string list" where
  "toTokens s =
     filter (\<lambda>t. length t \<ge> 3)
       (split_runs is_space
          (replace_runs (\<lambda>c. \<not> (is_lower c \<or> is_digit c \<or> is_space c)) '' ''
             (toLowerCase s)))"

text \<open>A \<open>Set\<close> built from an array keeps the first occurrence of each element.\<close>

definition new_Set :: "'a list \<Rightarrow> 'a list" where
  "new_Set xs = rev (remdups (rev xs))"

definition textSim :: "string \<Rightarrow> string \<Rightarrow> real" where
  "textSim a b =
     (let A = new_Set (toTokens a); B = new_Set (toTokens b)
      in if length A = 0 \<or> length B = 0 then 0
         else let inter = length (filter (\<lambda>t. t \<in> set B) A);
                  uni = length A + length B - inter
              in if uni = 0 then 0 else real inter / real uni)"

subsection \<open>Array.prototype.sort\<close>

text \<open>
  The sort is stable; \<open>cmp a b \<le> 0\<close> keeps \<open>a\<close> in front of \<open>b\<close>.
\<close>

fun sort_insert :: "('a \<Rightarrow> 'a \<Rightarrow> real) \<Rightarrow> 'a \<Rightarrow> 'a list \<Rightarrow> 'a list" where
  "sort_insert cmp x [] = [x]"
| "sort_insert cmp x (y # ys) =
     (if cmp x y \<le> 0 then x # y # ys else y # sort_insert cmp x ys)"

definition array_sort :: "('a \<Rightarrow> 'a \<Rightarrow> real) \<Rightarrow> 'a list \<Rightarrow> 'a list" where
  "array_sort cmp xs = foldr (sort_insert cmp) xs []"

subsection \<open>rrfMerge\<close>

record metadata =
  statusCode :: nat
  error :: "string option"
  proxyUsed :: "string option"

text \<open>
  One search result. \<open>rrfMerge\<close> reads \<open>url\<close>, \<open>position\<close>, \<open>title\<close> and
  \<open>description\<close>; the other fields are those the controller adds or reads later.
\<close>

record item =
  url :: "string option"
  position :: "real option"
  title :: "string option"
  description :: "string option"
  snippet :: "string option"
  category :: "string option"
  markdown :: "string option"
  metadata :: "metadata option"

record acc =
  score :: real
  base :: real
  sim :: real
  bestItem :: item
  bestRank :: real
  bestVariantIdx :: nat

type_synonym by_url = "(string \<times> acc) list"

text \<open>
  The body of the inner \<open>forEach\<close>: one item of variant list \<open>variantIdx\<close> at index
  \<open>idx\<close>. The \<open>Map\<close> is an association list in insertion order; an existing key keeps
  its place.
\<close>

definition truthy :: "string option \<Rightarrow> bool" where
  "truthy s = (case s of None \<Rightarrow> False | Some u \<Rightarrow> u \<noteq> [])"

definition rank_of :: "item \<Rightarrow> nat \<Rightarrow> real" where
  "rank_of it idx = (case position it of Some p \<Rightarrow> p | None \<Rightarrow> real idx + 1)"

definition visit :: "real \<Rightarrow> nat \<Rightarrow> by_url \<Rightarrow> nat \<times> item \<Rightarrow> by_url" where
  "visit k variantIdx byUrl p =
     (case p of (idx, it) \<Rightarrow>
        (case url it of
           None \<Rightarrow> byUrl
         | Some u \<Rightarrow>
             if u = [] then byUrl
             else
               let rank = rank_of it idx;
                   add = 1 / (k + rank)
               in (case map_of byUrl u of
                     None \<Rightarrow>
                       AList.update u
                         \<lparr>score = add, base = add, sim = 0, bestItem = it,
                          bestRank = rank, bestVariantIdx = variantIdx\<rparr> byUrl
                   | Some prev \<Rightarrow>
                       let prev1 = prev\<lparr>score := score prev + add, base := base prev + add\<rparr>;
                           prev2 =
                             (if rank < bestRank prev1 \<or>
                                 (rank = bestRank prev1 \<and> variantIdx < bestVariantIdx prev1)
                              then prev1\<lparr>bestItem := it, bestRank := rank,
                                         bestVariantIdx := variantIdx\<rparr>
                              else prev1)
                       in AList.update u prev2 byUrl)))"

definition visit_list :: "real \<Rightarrow> by_url \<Rightarrow> nat \<times> item list option \<Rightarrow> by_url" where
  "visit_list k byUrl p =
     (case p of (variantIdx, l) \<Rightarrow>
        (case l of None \<Rightarrow> byUrl
         | Some its \<Rightarrow> foldl (visit k variantIdx) byUrl (enumerate 0 its)))"

definition accumulate :: "real \<Rightarrow> item list option list \<Rightarrow> by_url" where
  "accumulate k lsts = foldl (visit_list k) [] (enumerate 0 lsts)"

definition snippet_text :: "item \<Rightarrow> string" where
  "snippet_text it =
     (case description it of
        Some d \<Rightarrow> if d \<noteq> [] \<and> length (trim d) > 0 then d
                  else (case title it of Some t \<Rightarrow> t | None \<Rightarrow> [])
      | None \<Rightarrow> (case title it of Some t \<Rightarrow> t | None \<Rightarrow> []))"

definition simSum :: "string \<Rightarrow> string list \<Rightarrow> real" where
  "simSum text qs = foldl (\<lambda>s q. s + textSim text q) 0 qs"

definition add_similarity :: "string list \<Rightarrow> real \<Rightarrow> acc \<Rightarrow> acc" where
  "add_similarity expandedQs beta a =
     (let s = simSum (snippet_text (bestItem a)) expandedQs
      in a\<lparr>sim := s, score := base a + beta * s\<rparr>)"

definition scored :: "item list option list \<Rightarrow> string list \<Rightarrow> real \<Rightarrow> real \<Rightarrow> by_url" where
  "scored lsts expandedQs k beta =
     map (\<lambda>(u, a). (u, add_similarity expandedQs beta a)) (accumulate k lsts)"

definition rrfMerge :: "item list option list \<Rightarrow> string list \<Rightarrow> real \<Rightarrow> real \<Rightarrow> item list" where
  "rrfMerge lsts expandedQs k beta =
     map (\<lambda>(i, entry). (bestItem entry)\<lparr>position := Some (real i + 1)\<rparr>)
       (enumerate 0
          (array_sort (\<lambda>a b. score b - score a)
             (map snd (scored lsts expandedQs k beta))))"

subsection \<open>Quantities the fusion properties are stated with\<close>

text \<open>
  \<open>base_of\<close> reads the \<open>base\<close> field accumulated for a URL (0 when the URL has no
  entry) and \<open>best_ok\<close> is the invariant of the \<open>Map\<close>. \<open>input_urls\<close> lists the
  defined URLs of the input and \<open>truthy_urls\<close> those that pass the guard \<open>!url\<close>;
  \<open>ranks_of\<close> lists the ranks at which a URL occurs, variant list by variant list;
  \<open>score_of\<close> and \<open>sim_of\<close> read the final score and similarity sum of a URL.
\<close>

definition base_of :: "by_url \<Rightarrow> string \<Rightarrow> real" where
  "base_of byUrl u = (case map_of byUrl u of None \<Rightarrow> 0 | Some a \<Rightarrow> base a)"

definition best_ok :: "by_url \<Rightarrow> bool" where
  "best_ok byUrl = (distinct (map fst byUrl) \<and> (\<forall>(u, a) \<in> set byUrl. u \<noteq> [] \<and> url (bestItem a) = Some u))"

definition truthy_urls_of :: "item list \<Rightarrow> string list" where
  "truthy_urls_of its = map (\<lambda>it. the (url it)) (filter (\<lambda>it. truthy (url it)) its)"

definition truthy_urls :: "item list option list \<Rightarrow> string list" where
  "truthy_urls lsts =
     concat (map (\<lambda>l. case l of None \<Rightarrow> [] | Some its \<Rightarrow> truthy_urls_of its) lsts)"

definition ranks_from :: "nat \<Rightarrow> item list \<Rightarrow> string \<Rightarrow> real list" where
  "ranks_from n its u =
     map (\<lambda>(idx, it). rank_of it idx) (filter (\<lambda>(idx, it). url it = Some u) (enumerate n its))"

definition ranks_in_list :: "item list option \<Rightarrow> string \<Rightarrow> real list" where
  "ranks_in_list l u = (case l of None \<Rightarrow> [] | Some its \<Rightarrow> ranks_from 0 its u)"

definition ranks_of :: "item list option list \<Rightarrow> string \<Rightarrow> real list" where
  "ranks_of lsts u = concat (map (\<lambda>l. ranks_in_list l u) lsts)"

definition defined_urls_of :: "item list \<Rightarrow> string list" where
  "defined_urls_of its = map (\<lambda>it. the (url it)) (filter (\<lambda>it. url it \<noteq> None) its)"

definition input_urls :: "item list option list \<Rightarrow> string list" where
  "input_urls lsts =
     concat (map (\<lambda>l. case l of None \<Rightarrow> [] | Some its \<Rightarrow> defined_urls_of its) lsts)"

definition all_carry_url :: "item list option list \<Rightarrow> bool" where
  "all_carry_url lsts =
     list_all (\<lambda>l. case l of None \<Rightarrow> True | Some its \<Rightarrow> list_all (\<lambda>it. truthy (url it)) its) lsts"

definition input_size :: "item list option list \<Rightarrow> nat" where
  "input_size lsts = sum_list (map (\<lambda>l. case l of None \<Rightarrow> 0 | Some its \<Rightarrow> length its) lsts)"

definition score_of :: "item list option list \<Rightarrow> string list \<Rightarrow> real \<Rightarrow> real \<Rightarrow> string \<Rightarrow> real option" where
  "score_of lsts expandedQs k beta u = map_option score (map_of (scored lsts expandedQs k beta) u)"

definition sim_of :: "item list option list \<Rightarrow> string list \<Rightarrow> real \<Rightarrow> real \<Rightarrow> string \<Rightarrow> real option" where
  "sim_of lsts expandedQs k beta u = map_option sim (map_of (scored lsts expandedQs k beta) u)"

section \<open>Agentic helpers\<close>

subsection \<open>JSON values and the language built-ins\<close>

datatype json =
  JNull
| JBool bool
| JNum real
| JStr string
| JArr "json list"
| JObj "(string \<times> json) list"

text \<open>
  \<open>JSON.parse\<close>, \<open>String\<close> and \<open>Number\<close> belong to the language, not to the
  repository; they are parameters. \<open>JSON_parse\<close> returns \<open>None\<close> where the built-in
  throws, \<open>js_Number\<close> returns \<open>None\<close> for \<open>NaN\<close>. The conversions of the primitive
  values are written out below.
\<close>

record builtins =
  JSON_parse :: "string \<Rightarrow> json option"
  js_String :: "json \<Rightarrow> string"
  js_Number :: "json \<Rightarrow> real option"

definition String_of :: "builtins \<Rightarrow> json \<Rightarrow> string" where
  "String_of b v = (case v of JStr s \<Rightarrow> s | _ \<Rightarrow> js_String b v)"

text \<open>\<open>Boolean(x)\<close>; \<open>None\<close> is \<open>undefined\<close>.\<close>

definition Boolean_of :: "json option \<Rightarrow> bool" where
  "Boolean_of x =
     (case x of
        None \<Rightarrow> False
      | Some JNull \<Rightarrow> False
      | Some (JBool t) \<Rightarrow> t
      | Some (JNum r) \<Rightarrow> r \<noteq> 0
      | Some (JStr s) \<Rightarrow> s \<noteq> []
      | Some (JArr _) \<Rightarrow> True
      | Some (JObj _) \<Rightarrow> True)"

text \<open>\<open>Number(x) || 0\<close>: \<open>NaN\<close> and \<open>0\<close> both give \<open>0\<close>.\<close>

definition Number_or_0 :: "builtins \<Rightarrow> json option \<Rightarrow> real" where
  "Number_or_0 b x =
     (case x of
        None \<Rightarrow> 0
      | Some JNull \<Rightarrow> 0
      | Some (JBool t) \<Rightarrow> (if t then 1 else 0)
      | Some (JNum r) \<Rightarrow> r
      | Some v \<Rightarrow> (case js_Number b v of None \<Rightarrow> 0 | Some r \<Rightarrow> r))"

text \<open>
  \<open>parsed.key\<close> for a value that \<open>JSON.parse\<close> returned: \<open>Inl ()\<close> is the
  \<open>TypeError\<close> of reading a property of \<open>null\<close>, \<open>Inr None\<close> is \<open>undefined\<close>.
  The keys read are \<open>answered\<close>, \<open>confidence\<close> and \<open>missing_facts\<close>, which
  strings, numbers, booleans and arrays do not have.
\<close>

definition get_prop :: "json \<Rightarrow> string \<Rightarrow> unit + json option" where
  "get_prop parsed key =
     (case parsed of
        JNull \<Rightarrow> Inl ()
      | JObj kvs \<Rightarrow> Inr (map_of kvs key)
      | _ \<Rightarrow> Inr None)"

subsection \<open>expandQueriesPlanner\<close>

definition norm :: "string \<Rightarrow> string" where
  "norm s = trim (replace_runs is_space '' '' s)"

text \<open>\<open>JSON.parse(text)\<close> followed by the \<open>Array.isArray\<close> check; \<open>None\<close> is a throw.\<close>

definition parse_array :: "builtins \<Rightarrow> string \<Rightarrow> json list option" where
  "parse_array b text = (case JSON_parse b text of Some (JArr vs) \<Rightarrow> Some vs | _ \<Rightarrow> None)"

definition strip_fences :: "string \<Rightarrow> string" where
  "strip_fences text =
     (let c0 = trim text;
          c1 = (if startsWith c0 ''```json'' then trim (drop 7 c0) else c0);
          c2 = (if startsWith c1 ''```'' then trim (drop 3 c1) else c1)
      in if endsWith c2 ''```'' then trim (take (length c2 - 3) c2) else c2)"

definition split_variants :: "string \<Rightarrow> string list" where
  "split_variants cleaned =
     filter (\<lambda>s. length s > 0)
       (map (\<lambda>s. trim (dropWhile (\<lambda>c. c \<in> set ''-*.'' \<or> is_digit c \<or> is_space c) s))
          (split_chars (\<lambda>c. c = CHR 0x0A \<or> c = CHR '','') cleaned))"

definition parse_variants :: "builtins \<Rightarrow> string \<Rightarrow> json list" where
  "parse_variants b text =
     (case parse_array b text of
        Some vs \<Rightarrow> vs
      | None \<Rightarrow>
          let cleaned = strip_fences text
          in (case parse_array b cleaned of
                Some vs \<Rightarrow> vs
              | None \<Rightarrow> map JStr (split_variants cleaned)))"

text \<open>
  The \<open>for (const v of variants)\<close> loop with its \<open>seen\<close> set and \<open>out\<close> array; the
  \<open>break\<close> is the return of \<open>out\<close> without looking at the rest.
\<close>

fun collect :: "builtins \<Rightarrow> nat \<Rightarrow> string list \<Rightarrow> string list \<Rightarrow> json list \<Rightarrow> string list" where
  "collect b maxVariants seen out [] = out"
| "collect b maxVariants seen out (v # vs) =
     (let q = norm (String_of b v)
      in if q = [] \<or> toLowerCase q \<in> set seen then collect b maxVariants seen out vs
         else if length (out @ [q]) \<ge> maxVariants then out @ [q]
         else collect b maxVariants (toLowerCase q # seen) (out @ [q]) vs)"

text \<open>
  \<open>generateText\<close> is the completion call for the prompt built from the base query, the
  gap hint and \<open>maxVariants\<close>; \<open>None\<close> is a rejected call.
\<close>

definition expandQueriesPlanner ::
  "builtins \<Rightarrow> (string \<Rightarrow> string option \<Rightarrow> nat \<Rightarrow> string option) \<Rightarrow>
   string \<Rightarrow> string option \<Rightarrow> nat \<Rightarrow> string list" where
  "expandQueriesPlanner b generateText baseQuery gapHint maxVariants =
     (case generateText baseQuery gapHint maxVariants of
        None \<Rightarrow> [baseQuery]
      | Some text \<Rightarrow>
          let variants = parse_variants b text;
              out = collect b maxVariants [] [] variants;
              original = norm baseQuery
          in original # filter (\<lambda>v. toLowerCase v \<noteq> toLowerCase original) out)"

subsection \<open>evaluateAnswerWithLLM\<close>

record verdict =
  answered :: bool
  confidence :: real
  missing_facts :: "string list"

definition neutral :: verdict where
  "neutral = \<lparr>answered = False, confidence = 0, missing_facts = []\<rparr>"

definition verdict_of_json :: "builtins \<Rightarrow> json \<Rightarrow> unit + verdict" where
  "verdict_of_json b parsed =
     (case get_prop parsed ''answered'' of
        Inl e \<Rightarrow> Inl e
      | Inr a \<Rightarrow>
          (case get_prop parsed ''confidence'' of
             Inl e \<Rightarrow> Inl e
           | Inr c \<Rightarrow>
               (case get_prop parsed ''missing_facts'' of
                  Inl e \<Rightarrow> Inl e
                | Inr m \<Rightarrow>
                    Inr \<lparr>answered = Boolean_of a,
                         confidence = Number_or_0 b c,
                         missing_facts =
                           (case m of Some (JArr vs) \<Rightarrow> map (String_of b) vs | _ \<Rightarrow> [])\<rparr>)))"

definition evaluateAnswerWithLLM ::
  "builtins \<Rightarrow> (string \<Rightarrow> (string option \<times> string list) list \<Rightarrow> string option) \<Rightarrow>
   string \<Rightarrow> (string option \<times> string list) list \<Rightarrow> verdict" where
  "evaluateAnswerWithLLM b generateText query spansByUrl =
     (case generateText query spansByUrl of
        None \<Rightarrow> neutral
      | Some text \<Rightarrow>
          (case JSON_parse b text of
             None \<Rightarrow> neutral
           | Some parsed \<Rightarrow>
               (case verdict_of_json b parsed of Inl _ \<Rightarrow> neutral | Inr v \<Rightarrow> v)))"

section \<open>Scrape dispatch\<close>

record scrape_input =
  s_url :: "string option"
  s_title :: "string option"
  s_description :: "string option"

record document =
  d_title :: "string option"
  d_description :: "string option"
  d_url :: "string option"
  d_markdown :: "string option"
  d_metadata :: "metadata option"

text \<open>
  \<open>EmptyCostTracking\<close> is \<open>new CostTracking().toJSON()\<close>; \<open>DbCostTracking\<close> is the
  \<open>cost_tracking\<close> column of the job's row, \<open>None\<close> when the row or the column is
  missing.
\<close>

datatype cost_tracking = EmptyCostTracking | DbCostTracking "json option"

record doc_with_cost =
  document :: document
  costTracking :: cost_tracking

text \<open>Values thrown inside the controller's \<open>try\<close> block.\<close>

datatype failure = ZodError | ScrapeJobTimeoutError string | OtherError string

record search_response =
  web :: "item list option"
  images :: "item list option"
  news :: "item list option"

text \<open>
  The collaborators, for one request. A call that rejects returns \<open>Inl\<close>. The first
  argument of the completion calls, of \<open>search\<close> and of \<open>startScrapeJob\<close> is the
  iteration in which the call is made, the second argument of \<open>search\<close> and
  \<open>startScrapeJob\<close> the index of the call within the iteration, so that two calls
  with the same arguments may answer differently. \<open>startScrapeJob\<close> stands for the
  function of that name (job priority lookup and queue submission) and returns the job
  id. \<open>extractTopSpansFromMarkdown\<close> only feeds the evaluation prompt and is passed as
  a function.
\<close>

record env =
  lang :: builtins
  USE_DB_AUTHENTICATION :: bool
  completeExpand :: "nat \<Rightarrow> string \<Rightarrow> string option \<Rightarrow> nat \<Rightarrow> string option"
  completeEvaluate :: "nat \<Rightarrow> string \<Rightarrow> (string option \<times> string list) list \<Rightarrow> string option"
  search :: "nat \<Rightarrow> nat \<Rightarrow> string \<Rightarrow> failure + search_response"
  getCategoryFromUrl :: "string option \<Rightarrow> string option"
  isUrlBlocked :: "string option \<Rightarrow> bool"
  startScrapeJob :: "nat \<Rightarrow> nat \<Rightarrow> scrape_input \<Rightarrow> string + nat"
  waitForJob :: "nat \<Rightarrow> string + document"
  removeJob :: "nat \<Rightarrow> string option"
  costTrackingQuery :: "nat \<Rightarrow> string + json option"
  calculateCreditsToBeBilled :: "document \<Rightarrow> cost_tracking \<Rightarrow> string + int"
  extractTopSpansFromMarkdown :: "string \<Rightarrow> string \<Rightarrow> nat \<Rightarrow> string list"

text \<open>\<open>x ?? y\<close> on an optional field.\<close>

definition or_else :: "'a option \<Rightarrow> 'a option \<Rightarrow> 'a option" where
  "or_else x y = (case x of Some v \<Rightarrow> Some v | None \<Rightarrow> y)"

text \<open>\<open>{title, description, url, ...doc}\<close>: the job's document over the search result.\<close>

definition with_search_result :: "scrape_input \<Rightarrow> document \<Rightarrow> document" where
  "with_search_result searchResult doc =
     doc\<lparr>d_title := or_else (d_title doc) (s_title searchResult),
         d_description := or_else (d_description doc) (s_description searchResult),
         d_url := or_else (d_url doc) (s_url searchResult)\<rparr>"

text \<open>The \<open>catch\<close> branch of \<open>scrapeSearchResult\<close>.\<close>

definition placeholder :: "scrape_input \<Rightarrow> string \<Rightarrow> doc_with_cost" where
  "placeholder searchResult errMsg =
     \<lparr>document =
        \<lparr>d_title = s_title searchResult,
         d_description = s_description searchResult,
         d_url = s_url searchResult,
         d_markdown = None,
         d_metadata = Some \<lparr>statusCode = 500, error = Some errMsg,
                             proxyUsed = Some ''basic''\<rparr>\<rparr>,
      costTracking = EmptyCostTracking\<rparr>"

definition scrapeSearchResult :: "env \<Rightarrow> nat \<Rightarrow> nat \<Rightarrow> scrape_input \<Rightarrow> doc_with_cost" where
  "scrapeSearchResult e iteration idx searchResult =
     (case startScrapeJob e iteration idx searchResult of
        Inl errMsg \<Rightarrow> placeholder searchResult errMsg
      | Inr jobId \<Rightarrow>
          (case waitForJob e jobId of
             Inl errMsg \<Rightarrow> placeholder searchResult errMsg
           | Inr doc \<Rightarrow>
               (case removeJob e jobId of
                  Some errMsg \<Rightarrow> placeholder searchResult errMsg
                | None \<Rightarrow>
                    if USE_DB_AUTHENTICATION e then
                      (case costTrackingQuery e jobId of
                         Inl errMsg \<Rightarrow> placeholder searchResult errMsg
                       | Inr ct \<Rightarrow>
                           \<lparr>document = with_search_result searchResult doc,
                            costTracking = DbCostTracking ct\<rparr>)
                    else
                      \<lparr>document = with_search_result searchResult doc,
                       costTracking = EmptyCostTracking\<rparr>)))"

text \<open>
  \<open>Promise.all(itemsToScrape.map(... scrapeSearchResult ...))\<close> in synchronous mode
  (\<open>isAsyncScraping\<close> is the constant \<open>false\<close>). No promise of the batch rejects.
\<close>

definition dispatch :: "env \<Rightarrow> nat \<Rightarrow> scrape_input list \<Rightarrow> doc_with_cost list" where
  "dispatch e iteration inputs =
     map (\<lambda>(idx, searchResult). scrapeSearchResult e iteration idx searchResult)
       (enumerate 0 inputs)"

section \<open>searchController\<close>

datatype item_type = TWeb | TNews | TImage

record scrape_item =
  si_item :: item
  si_type :: item_type
  scrapeInput :: scrape_input

text \<open>\<open>x || ""\<close> on an optional string.\<close>

definition or_empty :: "string option \<Rightarrow> string" where
  "or_empty x = (case x of Some s \<Rightarrow> s | None \<Rightarrow> [])"

definition itemsToScrape :: "env \<Rightarrow> search_response \<Rightarrow> scrape_item list" where
  "itemsToScrape e searchResponse =
     (case web searchResponse of
        None \<Rightarrow> []
      | Some ws \<Rightarrow>
          map (\<lambda>it. \<lparr>si_item = it, si_type = TWeb,
                     scrapeInput = \<lparr>s_url = url it, s_title = title it,
                                    s_description = description it\<rparr>\<rparr>)
            (filter (\<lambda>it. \<not> isUrlBlocked e (url it)) ws))
     @ (case news searchResponse of
          None \<Rightarrow> []
        | Some ns \<Rightarrow>
            map (\<lambda>it. \<lparr>si_item = it, si_type = TNews,
                       scrapeInput = \<lparr>s_url = url it, s_title = Some (or_empty (title it)),
                                      s_description = Some (or_empty (snippet it))\<rparr>\<rparr>)
              (filter (\<lambda>it. \<not> isUrlBlocked e (url it))
                 (filter (\<lambda>it. truthy (url it)) ns)))
     @ (case images searchResponse of
          None \<Rightarrow> []
        | Some ims \<Rightarrow>
            map (\<lambda>it. \<lparr>si_item = it, si_type = TImage,
                       scrapeInput = \<lparr>s_url = url it, s_title = Some (or_empty (title it)),
                                      s_description = Some []\<rparr>\<rparr>)
              (filter (\<lambda>it. \<not> isUrlBlocked e (url it))
                 (filter (\<lambda>it. truthy (url it)) ims)))"

text \<open>\<open>Promise.all\<close> over calls that may reject: the first rejection in list order.\<close>

fun all_settled :: "('e + 'a) list \<Rightarrow> 'e + 'a list" where
  "all_settled [] = Inr []"
| "all_settled (Inl err # ps) = Inl err"
| "all_settled (Inr v # ps) = (case all_settled ps of Inl err \<Rightarrow> Inl err | Inr vs \<Rightarrow> Inr (v # vs))"

text \<open>\<open>resultsMap\<close>: a later entry for the same URL replaces an earlier one.\<close>

definition resultsMap :: "scrape_item list \<Rightarrow> doc_with_cost list \<Rightarrow> (string option \<rightharpoonup> document)" where
  "resultsMap items docs =
     foldl (\<lambda>m (it, d). m(s_url (scrapeInput it) \<mapsto> document d)) Map.empty (zip items docs)"

text \<open>\<open>{...item, ...doc}\<close>; \<open>None\<close> is \<open>undefined\<close> or \<open>{}\<close>.\<close>

definition enrich :: "item \<Rightarrow> document option \<Rightarrow> item" where
  "enrich it doc =
     (case doc of
        None \<Rightarrow> it
      | Some d \<Rightarrow>
          it\<lparr>url := or_else (d_url d) (url it),
             title := or_else (d_title d) (title it),
             description := or_else (d_description d) (description it),
             markdown := or_else (d_markdown d) (markdown it),
             metadata := or_else (d_metadata d) (metadata it)\<rparr>)"

definition limit_to :: "nat \<Rightarrow> item list option \<Rightarrow> item list option" where
  "limit_to n l = map_option (take n) l"

definition count_of :: "item list option \<Rightarrow> nat" where
  "count_of l = (case l of None \<Rightarrow> 0 | Some xs \<Rightarrow> length xs)"

definition spans_of :: "env \<Rightarrow> string \<Rightarrow> item list \<Rightarrow> (string option \<times> string list) list" where
  "spans_of e q ws =
     concat (map (\<lambda>it.
        (case markdown it of
           None \<Rightarrow> []
         | Some md \<Rightarrow>
             if length md > 0 then
               (let spans = extractTopSpansFromMarkdown e md q 3
                in if length spans > 0 then [(url it, spans)] else [])
             else [])) ws)"

definition simSum_guarded :: "string \<Rightarrow> string list \<Rightarrow> real" where
  "simSum_guarded text qs = (if text = [] \<or> length (trim text) = 0 then 0 else simSum text qs)"

definition rerank :: "string list \<Rightarrow> item list \<Rightarrow> item list" where
  "rerank expandedQueries ws =
     (let scoredItems =
            map (\<lambda>(idx, it). (it, simSum_guarded (snippet_text it) expandedQueries, idx))
              (enumerate 0 ws);
          sorted =
            array_sort
              (\<lambda>a b. if fst (snd b) \<noteq> fst (snd a) then fst (snd b) - fst (snd a)
                      else real (snd (snd a)) - real (snd (snd b)))
              scoredItems
      in map (\<lambda>(i, x). (fst x)\<lparr>position := Some (real i + 1)\<rparr>) (enumerate 0 sorted))"

record search_body =
  query :: string
  limit :: nat

text \<open>
  What one pass of the loop body leaves behind: the values it assigns to the variables
  declared outside the loop, the evaluator's verdict, the limited result lists the
  dispatch started from, and the arguments of the calls it made to \<open>scrapeSearchResult\<close>
  and to the credit computation, in call order.
\<close>

record iteration_result =
  ir_response :: search_response
  ir_credits :: int
  ir_answered :: bool
  ir_confidence :: real
  ir_gapHint :: "string option"
  ir_verdict :: verdict
  ir_selected :: search_response
  ir_dispatched :: "scrape_input list"
  ir_credit_calls :: "doc_with_cost list"

text \<open>Steps 3 to 5 of the loop body: fusion, category labels, limit.\<close>

definition fuse_label_limit ::
  "env \<Rightarrow> search_body \<Rightarrow> string list \<Rightarrow> search_response list \<Rightarrow> search_response" where
  "fuse_label_limit e body expandedQueries variantSearches =
     (let fusedWeb = rrfMerge (map web variantSearches) expandedQueries 60 (1 / 10);
          fusedImages = rrfMerge (map images variantSearches) expandedQueries 60 (1 / 10);
          fusedNews = rrfMerge (map news variantSearches) expandedQueries 60 (1 / 10);
          labelledWeb = map (\<lambda>r. r\<lparr>category := getCategoryFromUrl e (url r)\<rparr>) fusedWeb;
          labelledNews =
            map (\<lambda>r. r\<lparr>category :=
                        (if truthy (url r) then getCategoryFromUrl e (url r) else None)\<rparr>)
              fusedNews
      in \<lparr>web = limit_to (limit body) (Some labelledWeb),
          images = limit_to (limit body) (Some fusedImages),
          news = limit_to (limit body) (Some labelledNews)\<rparr>)"

text \<open>\<open>scrapedResponse\<close> assigned over \<open>searchResponse\<close>.\<close>

definition enriched :: "(string option \<rightharpoonup> document) \<Rightarrow> search_response \<Rightarrow> search_response" where
  "enriched rmap searchResponse =
     \<lparr>web = map_option (map (\<lambda>it. enrich it (rmap (url it)))) (web searchResponse),
      images =
        map_option (map (\<lambda>it. enrich it (if truthy (url it) then rmap (url it) else None)))
          (images searchResponse),
      news =
        map_option (map (\<lambda>it. enrich it (if truthy (url it) then rmap (url it) else None)))
          (news searchResponse)\<rparr>"

text \<open>
  The credit computation is called for every entry of \<open>allDocsWithCostTracking\<close>; if
  one of the calls rejects, the \<open>catch\<close> branch takes \<open>totalResultsCount\<close>.
\<close>

definition credits_for :: "env \<Rightarrow> nat \<Rightarrow> doc_with_cost list \<Rightarrow> int" where
  "credits_for e totalResultsCount allDocsWithCostTracking =
     (case all_settled
             (map (\<lambda>d. calculateCreditsToBeBilled e (document d) (costTracking d))
                allDocsWithCostTracking) of
        Inl err \<Rightarrow> int totalResultsCount
      | Inr individualCredits \<Rightarrow> sum_list individualCredits)"

text \<open>
  Steps 6 onwards, in synchronous mode (\<open>shouldScrape\<close> is the constant \<open>true\<close>,
  \<open>isAsyncScraping\<close> the constant \<open>false\<close>): dispatch, enrichment, credits,
  evaluation, re-ranking of the web results.
\<close>

definition scrape_and_evaluate ::
  "env \<Rightarrow> search_body \<Rightarrow> nat \<Rightarrow> string list \<Rightarrow> search_response \<Rightarrow> iteration_result" where
  "scrape_and_evaluate e body iteration expandedQueries searchResponse =
     (let totalResultsCount =
            count_of (web searchResponse) + count_of (images searchResponse)
            + count_of (news searchResponse);
          items = itemsToScrape e searchResponse;
          allDocsWithCostTracking = dispatch e iteration (map scrapeInput items);
          scraped = enriched (resultsMap items allDocsWithCostTracking) searchResponse;
          spansByUrl =
            spans_of e (query body) (case web scraped of None \<Rightarrow> [] | Some ws \<Rightarrow> ws);
          evalResult =
            evaluateAnswerWithLLM (lang e) (completeEvaluate e iteration) (query body) spansByUrl;
          isAnswered = (answered evalResult \<and> confidence evalResult \<ge> 6 / 10)
      in \<lparr>ir_response = scraped\<lparr>web := map_option (rerank expandedQueries) (web scraped)\<rparr>,
          ir_credits = credits_for e totalResultsCount allDocsWithCostTracking,
          ir_answered = isAnswered,
          ir_confidence = confidence evalResult,
          ir_gapHint =
            (if isAnswered then None
             else Some (join ''; '' (take 5 (missing_facts evalResult)))),
          ir_verdict = evalResult,
          ir_selected = searchResponse,
          ir_dispatched = map scrapeInput items,
          ir_credit_calls = allDocsWithCostTracking\<rparr>)"

definition run_iteration ::
  "env \<Rightarrow> search_body \<Rightarrow> nat \<Rightarrow> string option \<Rightarrow> failure + iteration_result" where
  "run_iteration e body iteration gapHint =
     (let expandedQueries =
            expandQueriesPlanner (lang e) (completeExpand e iteration) (query body) gapHint 5
      in case all_settled (map (\<lambda>(i, q). search e iteration i q) (enumerate 0 expandedQueries)) of
           Inl err \<Rightarrow> Inl err
         | Inr variantSearches \<Rightarrow>
             Inr (scrape_and_evaluate e body iteration expandedQueries
                    (fuse_label_limit e body expandedQueries variantSearches)))"

definition MAX_ITERATIONS :: nat where
  "MAX_ITERATIONS = 2"

text \<open>
  The variables declared before the loop, and the iterations run so far. The loop
  body runs to its end before \<open>if (answered) break\<close> is reached.
\<close>

record loop_state =
  finalSearchResponse :: "search_response option"
  credits_billed :: int
  gapHint :: "string option"
  passes :: "iteration_result list"

function agent_loop :: "env \<Rightarrow> search_body \<Rightarrow> nat \<Rightarrow> loop_state \<Rightarrow> failure + loop_state" where
  "agent_loop e body iteration st =
     (if iteration < MAX_ITERATIONS then
        (case run_iteration e body iteration (gapHint st) of
           Inl err \<Rightarrow> Inl err
         | Inr r \<Rightarrow>
             let st' = \<lparr>finalSearchResponse = Some (ir_response r),
                        credits_billed = ir_credits r,
                        gapHint = ir_gapHint r,
                        passes = passes st @ [r]\<rparr>
             in if ir_answered r then Inr st' else agent_loop e body (iteration + 1) st')
      else Inr st)"
  by pat_completeness auto
termination
  by (relation "measure (\<lambda>(e, body, iteration, st). MAX_ITERATIONS - iteration)") auto

declare agent_loop.simps [simp del]

record request =
  forceZDR :: bool
  isSearchPreview :: bool
  parsed_body :: "search_body option"

datatype http_response =
  Ok200 search_response int
| BadRequest400
| Timeout408 string
| Error500 string

text \<open>
  What the request produced: the HTTP response, the amount passed to \<open>billTeam\<close> if it
  was called, and the iterations that ran. \<open>parsed_body\<close> is the result of
  \<open>searchRequestSchema.parse\<close>, \<open>None\<close> when it throws.
\<close>

record outcome =
  response :: http_response
  billTeam :: "int option"
  iterations :: "iteration_result list"

definition initial_state :: loop_state where
  "initial_state =
     \<lparr>finalSearchResponse = None, credits_billed = 0, gapHint = None, passes = []\<rparr>"

definition searchController :: "env \<Rightarrow> request \<Rightarrow> outcome" where
  "searchController e req =
     (if forceZDR req then \<lparr>response = BadRequest400, billTeam = None, iterations = []\<rparr>
      else
        (case parsed_body req of
           None \<Rightarrow> \<lparr>response = BadRequest400, billTeam = None, iterations = []\<rparr>
         | Some body \<Rightarrow>
             (case agent_loop e body 0 initial_state of
                Inl ZodError \<Rightarrow> \<lparr>response = BadRequest400, billTeam = None, iterations = []\<rparr>
              | Inl (ScrapeJobTimeoutError msg) \<Rightarrow>
                  \<lparr>response = Timeout408 msg, billTeam = None, iterations = []\<rparr>
              | Inl (OtherError msg) \<Rightarrow>
                  \<lparr>response = Error500 msg, billTeam = None, iterations = []\<rparr>
              | Inr st \<Rightarrow>
                  \<lparr>response =
                     Ok200 (case finalSearchResponse st of
                              Some r \<Rightarrow> r
                            | None \<Rightarrow> \<lparr>web = None, images = None, news = None\<rparr>)
                       (credits_billed st),
                   billTeam =
                     (if \<not> isSearchPreview req then Some (credits_billed st) else None),
                   iterations = passes st\<rparr>)))"

subsection \<open>Quantities the controller properties are stated with\<close>

text \<open>The convergence test of the loop body, on the evaluator's verdict.\<close>

definition converged :: "verdict \<Rightarrow> bool" where
  "converged v = (answered v \<and> confidence v \<ge> 6 / 10)"

definition or_nil :: "'a list option \<Rightarrow> 'a list" where
  "or_nil l = (case l of None \<Rightarrow> [] | Some xs \<Rightarrow> xs)"

text \<open>The items of the category lists of a 200 response.\<close>

definition emitted_items :: "outcome \<Rightarrow> item list" where
  "emitted_items out =
     (case response out of
        Ok200 r c \<Rightarrow> or_nil (web r) @ or_nil (images r) @ or_nil (news r)
      | _ \<Rightarrow> [])"

definition creditsUsed :: "outcome \<Rightarrow> int option" where
  "creditsUsed out = (case response out of Ok200 r c \<Rightarrow> Some c | _ \<Rightarrow> None)"

text \<open>The result lists without the items whose URL is blocked.\<close>

definition without_blocked :: "env \<Rightarrow> search_response \<Rightarrow> search_response" where
  "without_blocked e sr =
     \<lparr>web = map_option (filter (\<lambda>it. \<not> isUrlBlocked e (url it))) (web sr),
      images = map_option (filter (\<lambda>it. \<not> isUrlBlocked e (url it))) (images sr),
      news = map_option (filter (\<lambda>it. \<not> isUrlBlocked e (url it))) (news sr)\<rparr>"

text \<open>An entry that carries the error status of the \<open>catch\<close> branch.\<close>

definition is_error_item :: "doc_with_cost \<Rightarrow> bool" where
  "is_error_item d =
     (case d_metadata (document d) of
        None \<Rightarrow> False
      | Some m \<Rightarrow> statusCode m = 500 \<and> error m \<noteq> None)"

text \<open>The per-item calls of the credit computation for a batch.\<close>

definition credit_results :: "env \<Rightarrow> doc_with_cost list \<Rightarrow> (string + int) list" where
  "credit_results e docs =
     map (\<lambda>d. calculateCreditsToBeBilled e (document d) (costTracking d)) docs"

section \<open>Example inputs\<close>

definition mk_item :: "string \<Rightarrow> string \<Rightarrow> item" where
  "mk_item u t =
     \<lparr>url = Some u, position = None, title = Some t, description = None, snippet = None,
      category = None, markdown = None, metadata = None\<rparr>"

definition ex_lists :: "item list option list" where
  "ex_lists =
     [Some [mk_item ''https://a.example'' ''electric cars'',
            mk_item ''https://b.example'' ''electric cars''],
      None,
      Some [mk_item ''https://c.example'' ''other'',
            mk_item ''https://a.example'' ''electric cars'']]"

definition ex_empty_url :: "item list option list" where
  "ex_empty_url =
     [Some [\<lparr>url = Some [], position = None, title = Some ''electric cars'',
             description = None, snippet = None, category = None, markdown = None,
             metadata = None\<rparr>]]"

definition ex_missing_url :: "item list option list" where
  "ex_missing_url =
     [Some [\<lparr>url = None, position = None, title = Some ''electric cars'',
             description = None, snippet = None, category = None, markdown = None,
             metadata = None\<rparr>,
            mk_item ''https://a.example'' ''electric cars'']]"


definition ex_body :: search_body where
  "ex_body = \<lparr>query = ''ev range'', limit = 5\<rparr>"

definition ex_req :: request where
  "ex_req = \<lparr>forceZDR = False, isSearchPreview = False, parsed_body = Some ex_body\<rparr>"

definition ex_doc :: document where
  "ex_doc =
     \<lparr>d_title = None, d_description = None, d_url = None,
      d_markdown = Some ''EV range compared.'', d_metadata = None\<rparr>"

text \<open>
  A reply of the evaluation call that says the question is answered, one that says it
  is not, and a \<open>JSON.parse\<close> that knows these two texts.
\<close>

definition reply_yes :: string where
  \<open>reply_yes = ''{"answered":true,"confidence":1,"missing_facts":[]}''\<close>

definition reply_no :: string where
  \<open>reply_no = ''{"answered":false,"confidence":0,"missing_facts":["range"]}''\<close>

definition ex_lang :: builtins where
  "ex_lang =
     \<lparr>JSON_parse =
        (\<lambda>s. if s = reply_yes then
                Some (JObj [(''answered'', JBool True), (''confidence'', JNum 1),
                            (''missing_facts'', JArr [])])
              else if s = reply_no then
                Some (JObj [(''answered'', JBool False), (''confidence'', JNum 0),
                            (''missing_facts'', JArr [JStr ''range''])])
              else None),
      js_String = (\<lambda>v. []),
      js_Number = (\<lambda>v. None)\<rparr>"

text \<open>
  A team whose blocklist holds the URL \<open>b\<close>. The expansion call is rejected, so the
  only variant is the query itself; the provider returns two web results, the blocked
  one first; job ids are the dispatch indices.
\<close>

definition ex_env :: "string \<Rightarrow> env" where
  "ex_env reply =
     \<lparr>lang = ex_lang,
      USE_DB_AUTHENTICATION = False,
      completeExpand = (\<lambda>iteration q hint m. None),
      completeEvaluate = (\<lambda>iteration q spans. Some reply),
      search = (\<lambda>iteration i q.
        Inr \<lparr>web = Some [mk_item ''b'' ''ev'', mk_item ''a'' ''ev range''],
             images = None, news = None\<rparr>),
      getCategoryFromUrl = (\<lambda>u. None),
      isUrlBlocked = (\<lambda>u. u = Some ''b''),
      startScrapeJob = (\<lambda>iteration idx searchResult. Inr idx),
      waitForJob = (\<lambda>jobId. Inr ex_doc),
      removeJob = (\<lambda>jobId. None),
      costTrackingQuery = (\<lambda>jobId. Inr None),
      calculateCreditsToBeBilled = (\<lambda>doc ct. Inr 1),
      extractTopSpansFromMarkdown = (\<lambda>md q n. [md])\<rparr>"

text \<open>Five scrape inputs; with \<open>ex_env_timeout\<close> the job of the third one times out.\<close>

definition ex_input :: "string \<Rightarrow> scrape_input" where
  "ex_input u = \<lparr>s_url = Some u, s_title = Some ''ev'', s_description = None\<rparr>"

definition ex_inputs :: "scrape_input list" where
  "ex_inputs = [ex_input ''a'', ex_input ''c'', ex_input ''d'', ex_input ''e'', ex_input ''f'']"

definition ex_env_timeout :: env where
  "ex_env_timeout =
     (ex_env reply_no)\<lparr>waitForJob := (\<lambda>jobId. if jobId = 2 then Inl ''timeout'' else Inr ex_doc)\<rparr>"


text \<open>The limited result lists of \<open>ex_env\<close>, as the fusion leaves them.\<close>

definition ex_selected :: search_response where
  "ex_selected =
     \<lparr>web = Some [(mk_item ''a'' ''ev range'')\<lparr>position := Some 1\<rparr>,
                  (mk_item ''b'' ''ev'')\<lparr>position := Some 2\<rparr>],
      images = Some [], news = Some []\<rparr>"

text \<open>The credit computation is rejected; every job times out.\<close>

definition ex_env_credit_down :: env where
  "ex_env_credit_down =
     (ex_env reply_no)\<lparr>calculateCreditsToBeBilled := (\<lambda>doc ct. Inl ''unavailable'')\<rparr>"

definition ex_env_scrape_down :: env where
  "ex_env_scrape_down = (ex_env reply_no)\<lparr>waitForJob := (\<lambda>jobId. Inl ''timeout'')\<rparr>"




section \<open>Properties of rank fusion\<close>

lemma visit_keys:
  "map fst (visit k v byUrl (idx, it)) =
     (if truthy (url it) \<and> the (url it) \<notin> fst ` set byUrl
      then map fst byUrl @ [the (url it)] else map fst byUrl)"
  by (auto simp: visit_def truthy_def Let_def update_keys map_of_eq_None_iff
      split: option.splits)

lemma visit_base:
  "base_of (visit k v byUrl (idx, it)) u =
     base_of byUrl u + (if url it = Some u \<and> u \<noteq> [] then 1 / (k + rank_of it idx) else 0)"
  by (auto simp: visit_def base_of_def Let_def update_conv' split: option.splits)

lemma set_update_subset:
  "set (AList.update k v al) \<subseteq> insert (k, v) (set al)"
  by (induction al) auto

lemma visit_best_ok:
  assumes "best_ok byUrl"
  shows "best_ok (visit k v byUrl (idx, it))"
proof -
  have d: "distinct (map fst (visit k v byUrl (idx, it)))"
    using assms by (auto simp: visit_keys best_ok_def)
  have "\<forall>(u, a) \<in> set (visit k v byUrl (idx, it)). u \<noteq> [] \<and> url (bestItem a) = Some u"
  proof (cases "url it")
    case None
    then show ?thesis using assms by (simp add: visit_def best_ok_def)
  next
    case (Some u)
    show ?thesis
    proof (cases "u = []")
      case True
      then show ?thesis using assms Some by (simp add: visit_def best_ok_def)
    next
      case False
      show ?thesis
      proof (cases "map_of byUrl u")
        case None
        then show ?thesis
          using assms Some False set_update_subset
          by (fastforce simp: visit_def best_ok_def Let_def)
      next
        case (Some prev)
        then have "(u, prev) \<in> set byUrl" by (rule map_of_SomeD)
        then have "url (bestItem prev) = Some u" using assms by (auto simp: best_ok_def)
        then show ?thesis
          using assms \<open>url it = Some u\<close> False Some set_update_subset
          by (fastforce simp: visit_def best_ok_def Let_def)
      qed
    qed
  qed
  with d show ?thesis by (simp add: best_ok_def)
qed

lemma foldl_visit_keys:
  "fst ` set (foldl (visit k v) byUrl (enumerate n its)) =
     fst ` set byUrl \<union> set (truthy_urls_of its)"
proof (induction its arbitrary: byUrl n)
  case Nil
  then show ?case by (simp add: truthy_urls_of_def)
next
  case (Cons it its)
  have "fst ` set (visit k v byUrl (n, it)) =
          fst ` set byUrl \<union> (if truthy (url it) then {the (url it)} else {})"
  proof -
    have "fst ` set (visit k v byUrl (n, it)) = set (map fst (visit k v byUrl (n, it)))"
      by simp
    also have "\<dots> = fst ` set byUrl \<union> (if truthy (url it) then {the (url it)} else {})"
      unfolding visit_keys by auto
    finally show ?thesis .
  qed
  then show ?case
    using Cons.IH [of "visit k v byUrl (n, it)" "Suc n"]
    by (auto simp: truthy_urls_of_def)
qed

lemma foldl_visit_best_ok:
  "best_ok byUrl \<Longrightarrow> best_ok (foldl (visit k v) byUrl (enumerate n its))"
  by (induction its arbitrary: byUrl n) (simp_all add: visit_best_ok)

lemma foldl_visit_base:
  "u \<noteq> [] \<Longrightarrow> base_of (foldl (visit k v) byUrl (enumerate n its)) u =
     base_of byUrl u + (\<Sum>r\<leftarrow>ranks_from n its u. 1 / (k + r))"
  by (induction its arbitrary: byUrl n) (simp_all add: visit_base ranks_from_def)

lemma visit_list_keys:
  "fst ` set (visit_list k byUrl (v, l)) =
     fst ` set byUrl \<union> set (case l of None \<Rightarrow> [] | Some its \<Rightarrow> truthy_urls_of its)"
  by (simp add: visit_list_def foldl_visit_keys split: option.splits)

lemma visit_list_best_ok: "best_ok byUrl \<Longrightarrow> best_ok (visit_list k byUrl (v, l))"
  by (simp add: visit_list_def foldl_visit_best_ok split: option.splits)

lemma visit_list_base:
  "u \<noteq> [] \<Longrightarrow> base_of (visit_list k byUrl (v, l)) u =
     base_of byUrl u + (\<Sum>r\<leftarrow>ranks_in_list l u. 1 / (k + r))"
  by (simp add: visit_list_def foldl_visit_base ranks_in_list_def split: option.splits)

lemma foldl_visit_list_keys:
  "fst ` set (foldl (visit_list k) byUrl (enumerate n lsts)) =
     fst ` set byUrl \<union> set (truthy_urls lsts)"
proof (induction lsts arbitrary: byUrl n)
  case Nil
  then show ?case by (simp add: truthy_urls_def)
next
  case (Cons l lsts)
  show ?case
    using Cons.IH [of "visit_list k byUrl (n, l)" "Suc n"]
    by (auto simp: truthy_urls_def visit_list_keys)
qed

lemma foldl_visit_list_best_ok:
  "best_ok byUrl \<Longrightarrow> best_ok (foldl (visit_list k) byUrl (enumerate n lsts))"
  by (induction lsts arbitrary: byUrl n) (simp_all add: visit_list_best_ok)

lemma foldl_visit_list_base:
  "u \<noteq> [] \<Longrightarrow> base_of (foldl (visit_list k) byUrl (enumerate n lsts)) u =
     base_of byUrl u + (\<Sum>r\<leftarrow>ranks_of lsts u. 1 / (k + r))"
  by (induction lsts arbitrary: byUrl n) (simp_all add: visit_list_base ranks_of_def)

lemma accumulate_keys: "fst ` set (accumulate k lsts) = set (truthy_urls lsts)"
  by (simp add: accumulate_def foldl_visit_list_keys)

lemma accumulate_best_ok: "best_ok (accumulate k lsts)"
proof -
  have "best_ok []" by (simp add: best_ok_def)
  then show ?thesis unfolding accumulate_def by (rule foldl_visit_list_best_ok)
qed

lemma accumulate_base:
  "u \<noteq> [] \<Longrightarrow> base_of (accumulate k lsts) u = (\<Sum>r\<leftarrow>ranks_of lsts u. 1 / (k + r))"
proof -
  assume "u \<noteq> []"
  moreover have "base_of [] u = 0" by (simp add: base_of_def)
  ultimately show ?thesis by (simp add: accumulate_def foldl_visit_list_base)
qed

lemma mset_sort_insert: "mset (sort_insert cmp x xs) = add_mset x (mset xs)"
  by (induction xs) auto

lemma mset_array_sort: "mset (array_sort cmp xs) = mset xs"
  by (induction xs) (auto simp: array_sort_def mset_sort_insert)

lemma set_array_sort: "set (array_sort cmp xs) = set xs"
  using mset_array_sort [of cmp xs] by (metis set_mset_mset)

lemma length_array_sort: "length (array_sort cmp xs) = length xs"
  using mset_array_sort [of cmp xs] by (metis size_mset)

lemma set_sort_insert: "set (sort_insert cmp x xs) = insert x (set xs)"
  using mset_sort_insert [of cmp x xs] by (metis set_mset_mset set_mset_add_mset_insert)

lemma sorted_sort_insert:
  "sorted_wrt (\<lambda>a b. f b \<le> f a) xs \<Longrightarrow>
   sorted_wrt (\<lambda>a b. (f b :: real) \<le> f a) (sort_insert (\<lambda>a b. f b - f a) x xs)"
  by (induction xs) (auto simp: set_sort_insert)

lemma sorted_array_sort:
  "sorted_wrt (\<lambda>a b. (f b :: real) \<le> f a) (array_sort (\<lambda>a b. f b - f a) xs)"
  by (induction xs) (auto simp: array_sort_def sorted_sort_insert)

lemma truthy_urls_eq_input_urls:
  "all_carry_url lsts \<Longrightarrow> truthy_urls lsts = input_urls lsts"
proof -
  have one: "list_all (\<lambda>it. truthy (url it)) its \<Longrightarrow> truthy_urls_of its = defined_urls_of its"
    for its
    by (induction its)
       (auto simp: truthy_urls_of_def defined_urls_of_def truthy_def split: option.splits)
  show "all_carry_url lsts \<Longrightarrow> truthy_urls lsts = input_urls lsts"
    by (induction lsts)
       (auto simp: all_carry_url_def truthy_urls_def input_urls_def one split: option.splits)
qed

lemma length_truthy_urls_le: "length (truthy_urls lsts) \<le> input_size lsts"
proof -
  have one: "length (truthy_urls_of its) \<le> length its" for its
    by (simp add: truthy_urls_of_def)
  show ?thesis
    by (induction lsts)
       (auto simp: truthy_urls_def input_size_def one add_mono split: option.splits)
qed

lemma bestItem_add_similarity: "bestItem (add_similarity qs beta a) = bestItem a"
  by (simp add: add_similarity_def Let_def)

lemma rrfMerge_length:
  "length (rrfMerge lsts qs k beta) = length (accumulate k lsts)"
  by (simp add: rrfMerge_def scored_def length_array_sort)

lemma rrfMerge_nth:
  assumes "i < length (rrfMerge lsts qs k beta)"
  shows "rrfMerge lsts qs k beta ! i =
     (bestItem (array_sort (\<lambda>a b. score b - score a)
        (map snd (scored lsts qs k beta)) ! i))\<lparr>position := Some (real i + 1)\<rparr>"
  using assms by (simp add: rrfMerge_def nth_enumerate_eq)

lemma rrfMerge_positions:
  "map position (rrfMerge lsts qs k beta) =
     map (\<lambda>i. Some (real i + 1)) [0..<length (rrfMerge lsts qs k beta)]"
  by (rule nth_equalityI) (simp_all add: rrfMerge_nth)

lemma scored_urls:
  "map (\<lambda>a. url (bestItem a)) (map snd (scored lsts qs k beta)) =
     map Some (map fst (accumulate k lsts))"
proof -
  have "\<forall>(u, a) \<in> set (accumulate k lsts). url (bestItem a) = Some u"
    using accumulate_best_ok [of k lsts] by (auto simp: best_ok_def)
  then show ?thesis
    by (auto simp: scored_def bestItem_add_similarity)
qed

lemma rrfMerge_urls:
  "mset (map url (rrfMerge lsts qs k beta)) = mset (map Some (map fst (accumulate k lsts)))"
proof -
  let ?S = "array_sort (\<lambda>a b. score b - score a) (map snd (scored lsts qs k beta))"
  have "map url (rrfMerge lsts qs k beta) = map (\<lambda>a. url (bestItem a)) ?S"
  proof (rule nth_equalityI)
    show "length (map url (rrfMerge lsts qs k beta)) = length (map (\<lambda>a. url (bestItem a)) ?S)"
      by (simp add: rrfMerge_def)
  next
    fix i assume "i < length (map url (rrfMerge lsts qs k beta))"
    then have i: "i < length (rrfMerge lsts qs k beta)" by simp
    then have "i < length ?S" by (simp add: rrfMerge_def)
    then show "map url (rrfMerge lsts qs k beta) ! i = map (\<lambda>a. url (bestItem a)) ?S ! i"
      using i by (simp add: rrfMerge_nth)
  qed
  then have "mset (map url (rrfMerge lsts qs k beta)) =
      image_mset (\<lambda>a. url (bestItem a)) (mset ?S)" by simp
  also have "\<dots> = mset (map (\<lambda>a. url (bestItem a)) (map snd (scored lsts qs k beta)))"
    by (simp only: mset_array_sort mset_map)
  finally show ?thesis by (simp only: scored_urls)
qed

lemma rrfMerge_distinct: "distinct (map url (rrfMerge lsts qs k beta))"
proof -
  have "distinct (map Some (map fst (accumulate k lsts)))"
    using accumulate_best_ok [of k lsts] by (simp add: best_ok_def distinct_map inj_on_def)
  then show ?thesis
    using rrfMerge_urls [of lsts qs k beta] by (metis mset_eq_imp_distinct_iff)
qed

lemma rrfMerge_url_set:
  "set (map url (rrfMerge lsts qs k beta)) = Some ` set (truthy_urls lsts)"
proof -
  have "set (map url (rrfMerge lsts qs k beta)) = set (map Some (map fst (accumulate k lsts)))"
    using rrfMerge_urls [of lsts qs k beta] by (metis set_mset_mset)
  also have "\<dots> = Some ` (fst ` set (accumulate k lsts))" by (simp add: image_image)
  finally show ?thesis by (simp only: accumulate_keys)
qed

lemma rrfMerge_card:
  "length (rrfMerge lsts qs k beta) = length (remdups (truthy_urls lsts))"
proof -
  have "distinct (map fst (accumulate k lsts))"
    using accumulate_best_ok [of k lsts] by (simp add: best_ok_def)
  then have "length (accumulate k lsts) = card (set (map fst (accumulate k lsts)))"
    by (metis distinct_card length_map)
  also have "\<dots> = card (set (truthy_urls lsts))"
    using accumulate_keys [of k lsts] by simp
  finally show ?thesis by (simp add: rrfMerge_length length_remdups_card_conv)
qed

lemma visit_falsy: "\<not> truthy (url it) \<Longrightarrow> visit k v byUrl (idx, it) = byUrl"
  by (auto simp: visit_def truthy_def split: option.splits)

lemma rrfMerge_truthy:
  assumes "x \<in> set (rrfMerge lsts qs k beta)"
  shows "truthy (url x)"
proof -
  have "url x \<in> set (map url (rrfMerge lsts qs k beta))" using assms by simp
  then obtain u where u: "url x = Some u" "u \<in> set (truthy_urls lsts)"
    unfolding rrfMerge_url_set by auto
  then have "u \<in> fst ` set (accumulate k lsts)" by (simp add: accumulate_keys)
  then have "u \<noteq> []" using accumulate_best_ok [of k lsts] by (auto simp: best_ok_def)
  with u show ?thesis by (simp add: truthy_def)
qed

lemma map_of_scored:
  "map_of (scored lsts qs k beta) u =
     map_option (add_similarity qs beta) (map_of (accumulate k lsts) u)"
  by (simp add: scored_def map_of_map)

lemma score_add_similarity:
  "score (add_similarity qs beta a) = base a + beta * sim (add_similarity qs beta a)"
  by (simp add: add_similarity_def Let_def)

lemma ranks_from_nonempty:
  "ranks_from n its u = [] \<longleftrightarrow> (\<forall>it \<in> set its. url it \<noteq> Some u)"
  by (induction its arbitrary: n) (auto simp: ranks_from_def)

lemma truthy_urls_of_iff:
  "u \<noteq> [] \<Longrightarrow> u \<in> set (truthy_urls_of its) \<longleftrightarrow> (\<exists>it \<in> set its. url it = Some u)"
  by (induction its) (auto simp: truthy_urls_of_def truthy_def split: option.splits)

lemma truthy_urls_iff_ranks:
  assumes "u \<noteq> []"
  shows "u \<in> set (truthy_urls lsts) \<longleftrightarrow> ranks_of lsts u \<noteq> []"
proof -
  show ?thesis
    using assms
    by (induction lsts)
       (auto simp: truthy_urls_def ranks_of_def ranks_in_list_def truthy_urls_of_iff
          ranks_from_nonempty split: option.splits)
qed

lemma accumulate_lookup:
  assumes "u \<noteq> []" and "ranks_of lsts u \<noteq> []"
  shows "\<exists>a. map_of (accumulate k lsts) u = Some a \<and> url (bestItem a) = Some u \<and>
           base a = (\<Sum>r\<leftarrow>ranks_of lsts u. 1 / (k + r))"
proof -
  have "u \<in> fst ` set (accumulate k lsts)"
    using assms by (simp add: accumulate_keys truthy_urls_iff_ranks)
  then obtain a where a: "map_of (accumulate k lsts) u = Some a"
    by (metis map_of_eq_None_iff not_Some_eq)
  then have "(u, a) \<in> set (accumulate k lsts)" by (rule map_of_SomeD)
  then have "url (bestItem a) = Some u"
    using accumulate_best_ok [of k lsts] by (auto simp: best_ok_def)
  moreover have "base a = (\<Sum>r\<leftarrow>ranks_of lsts u. 1 / (k + r))"
    using accumulate_base [OF assms(1), of k lsts] a by (simp add: base_of_def)
  ultimately show ?thesis using a by simp
qed

section \<open>Rank fusion: the claims\<close>

text \<open>
  C1. When every item of every variant list carries a URL (defined and not empty),
  the fused list has no two items with the same URL, has as many items as there are
  distinct URLs in the input, contains every input URL, and its \<open>position\<close> fields
  are \<open>1, 2, ..., N\<close> in output order.
\<close>

theorem rrfMerge_dedup_dense:
  assumes "all_carry_url lsts"
  shows "distinct (map url (rrfMerge lsts expandedQs k beta)) \<and>
         length (rrfMerge lsts expandedQs k beta) = length (remdups (input_urls lsts)) \<and>
         set (map url (rrfMerge lsts expandedQs k beta)) = Some ` set (input_urls lsts) \<and>
         map position (rrfMerge lsts expandedQs k beta) =
           map (\<lambda>i. Some (real i + 1)) [0..<length (rrfMerge lsts expandedQs k beta)]"
  using truthy_urls_eq_input_urls [OF assms]
    rrfMerge_distinct [of lsts expandedQs k beta]
    rrfMerge_card [of lsts expandedQs k beta]
    rrfMerge_url_set [of lsts expandedQs k beta]
    rrfMerge_positions [of lsts expandedQs k beta]
  by simp

theorem rrfMerge_dedup_dense_witness:
  "all_carry_url ex_lists \<and>
   distinct (map url (rrfMerge ex_lists [''electric cars''] 60 (1 / 10))) \<and>
   length (rrfMerge ex_lists [''electric cars''] 60 (1 / 10)) = 3 \<and>
   map position (rrfMerge ex_lists [''electric cars''] 60 (1 / 10)) = [Some 1, Some 2, Some 3]"
proof -
  have h: "all_carry_url ex_lists" by code_simp
  have n: "length (remdups (input_urls ex_lists)) = 3" by code_simp
  have u: "[0..<3] = [0, 1, 2]" by code_simp
  show ?thesis
    using h n u rrfMerge_dedup_dense [OF h, of "[''electric cars'']" 60 "1 / 10"] by simp
qed

text \<open>
  C10, as stated: the fused list has as many items as there are distinct defined URLs in
  the input. An item whose \<open>url\<close> is the empty string has a defined URL and is skipped
  as well, so the count is smaller.
\<close>

theorem rrfMerge_empty_url_counterexample:
  "length (rrfMerge ex_empty_url [''electric cars''] 60 (1 / 10)) \<noteq>
     length (remdups (input_urls ex_empty_url))"
  by code_simp

text \<open>
  C10, amended. An item whose \<open>url\<close> is absent, undefined or the empty string leaves
  the accumulator as it was, so it adds to no score; every item of the fused list has
  a non-empty URL; the fused list has as many items as there are distinct non-empty
  URLs in the input, which is at most the number of input items.
\<close>

theorem rrfMerge_ignores_falsy_url:
  "(\<not> truthy (url it) \<longrightarrow> visit k variantIdx byUrl (idx, it) = byUrl) \<and>
   (\<forall>x \<in> set (rrfMerge lsts expandedQs k beta). truthy (url x)) \<and>
   length (rrfMerge lsts expandedQs k beta) = length (remdups (truthy_urls lsts)) \<and>
   length (rrfMerge lsts expandedQs k beta) \<le> input_size lsts"
proof -
  have "length (remdups (truthy_urls lsts)) \<le> input_size lsts"
    by (rule order_trans [OF length_remdups_leq length_truthy_urls_le])
  then have "length (rrfMerge lsts expandedQs k beta) \<le> input_size lsts"
    by (simp only: rrfMerge_card)
  then show ?thesis
    using visit_falsy rrfMerge_truthy rrfMerge_card by blast
qed

theorem rrfMerge_ignores_falsy_url_witness:
  "\<not> truthy (url (hd (the (hd ex_missing_url)))) \<and>
   visit 60 0 [] (0, hd (the (hd ex_missing_url))) = [] \<and>
   list_all (\<lambda>x. truthy (url x)) (rrfMerge ex_missing_url [''electric cars''] 60 (1 / 10)) \<and>
   length (rrfMerge ex_missing_url [''electric cars''] 60 (1 / 10)) = 1 \<and>
   input_size ex_missing_url = 2"
proof -
  have f: "\<not> truthy (url (hd (the (hd ex_missing_url))))" by code_simp
  have n: "length (remdups (truthy_urls ex_missing_url)) = 1" by code_simp
  have m: "input_size ex_missing_url = 2" by code_simp
  show ?thesis
    using f n m
      rrfMerge_ignores_falsy_url [of "hd (the (hd ex_missing_url))" 60 0 "[]" 0
        ex_missing_url "[''electric cars'']" "1 / 10"]
    by (simp add: list_all_iff)
qed

section \<open>Properties of the agentic helpers\<close>





section \<open>Agentic helpers: the claims\<close>




section \<open>Properties of the controller\<close>

lemma scrape_and_evaluate_answered:
  "ir_answered (scrape_and_evaluate e body i qs sr) =
     converged (ir_verdict (scrape_and_evaluate e body i qs sr))"
  by (simp add: scrape_and_evaluate_def Let_def converged_def)

lemma run_iteration_answered:
  "run_iteration e body i g = Inr r \<Longrightarrow> ir_answered r = converged (ir_verdict r)"
  by (auto simp: run_iteration_def Let_def scrape_and_evaluate_answered split: sum.splits)



lemma agent_loop_stop:
  assumes "run_iteration e body 0 (gapHint st) = Inr r" and "ir_answered r"
  shows "agent_loop e body 0 st =
     Inr \<lparr>finalSearchResponse = Some (ir_response r), credits_billed = ir_credits r,
          gapHint = ir_gapHint r, passes = passes st @ [r]\<rparr>"
  using assms by (subst agent_loop.simps) (simp add: MAX_ITERATIONS_def Let_def)

lemma agent_loop_exhaust:
  assumes "run_iteration e body 0 (gapHint st) = Inr r0" and "\<not> ir_answered r0"
    and "run_iteration e body 1 (ir_gapHint r0) = Inr r1"
  shows "agent_loop e body 0 st =
     Inr \<lparr>finalSearchResponse = Some (ir_response r1), credits_billed = ir_credits r1,
          gapHint = ir_gapHint r1, passes = passes st @ [r0, r1]\<rparr>"
proof -
  let ?st1 = "\<lparr>finalSearchResponse = Some (ir_response r0), credits_billed = ir_credits r0,
          gapHint = ir_gapHint r0, passes = passes st @ [r0]\<rparr>"
  let ?st2 = "\<lparr>finalSearchResponse = Some (ir_response r1), credits_billed = ir_credits r1,
          gapHint = ir_gapHint r1, passes = passes st @ [r0, r1]\<rparr>"
  have two: "agent_loop e body 2 ?st2 = Inr ?st2"
    by (subst agent_loop.simps) (simp add: MAX_ITERATIONS_def)
  have one: "agent_loop e body 1 ?st1 = Inr ?st2"
    using assms(3) two
    by (subst agent_loop.simps) (simp add: MAX_ITERATIONS_def Let_def numeral_2_eq_2)
  show ?thesis
    using assms(1,2) one by (subst agent_loop.simps) (simp add: MAX_ITERATIONS_def Let_def)
qed

lemma agent_loop_passes:
  "agent_loop e body i st = Inr st' \<Longrightarrow> length (passes st') \<le> length (passes st) + (MAX_ITERATIONS - i)"
proof (induction e body i st rule: agent_loop.induct)
  case (1 e body iteration st)
  show ?case
  proof (cases "iteration < MAX_ITERATIONS")
    case False
    then show ?thesis using "1.prems" by (subst (asm) agent_loop.simps) simp
  next
    case True
    show ?thesis
    proof (cases "run_iteration e body iteration (gapHint st)")
      case (Inl err)
      then show ?thesis using "1.prems" True by (subst (asm) agent_loop.simps) simp
    next
      case (Inr r)
      let ?st1 = "\<lparr>finalSearchResponse = Some (ir_response r), credits_billed = ir_credits r,
          gapHint = ir_gapHint r, passes = passes st @ [r]\<rparr>"
      show ?thesis
      proof (cases "ir_answered r")
        case True
        then have "st' = ?st1"
          using "1.prems" Inr \<open>iteration < MAX_ITERATIONS\<close>
          by (subst (asm) agent_loop.simps) (simp add: Let_def)
        then show ?thesis using \<open>iteration < MAX_ITERATIONS\<close> by simp
      next
        case False
        then have "agent_loop e body (iteration + 1) ?st1 = Inr st'"
          using "1.prems" Inr \<open>iteration < MAX_ITERATIONS\<close>
          by (subst (asm) agent_loop.simps) (simp add: Let_def)
        from "1.IH" [OF \<open>iteration < MAX_ITERATIONS\<close> Inr refl False this]
        show ?thesis using \<open>iteration < MAX_ITERATIONS\<close> by simp
      qed
    qed
  qed
qed

lemma all_settled_not_isl:
  "(\<forall>p \<in> set ps. \<not> isl p) \<Longrightarrow> \<not> isl (all_settled ps)"
proof (induction ps)
  case Nil
  then show ?case by simp
next
  case (Cons p ps)
  then show ?case by (cases p) (auto split: sum.splits)
qed

lemma run_iteration_returns:
  assumes "\<And>i q. \<not> isl (search e it i q)"
  shows "\<exists>r. run_iteration e body it g = Inr r"
proof -
  let ?qs = "expandQueriesPlanner (lang e) (completeExpand e it) (query body) g 5"
  have "\<not> isl (all_settled (map (\<lambda>(i, q). search e it i q) (enumerate 0 ?qs)))"
    by (rule all_settled_not_isl) (auto simp: assms)
  then obtain vs where "all_settled (map (\<lambda>(i, q). search e it i q) (enumerate 0 ?qs)) = Inr vs"
    by (metis sum.collapse(2))
  then show ?thesis by (simp add: run_iteration_def Let_def)
qed

lemma run_iteration_verdict:
  assumes "run_iteration e body it g = Inr r"
  shows "\<exists>spans. ir_verdict r =
           evaluateAnswerWithLLM (lang e) (completeEvaluate e it) (query body) spans"
  using assms
  by (auto simp: run_iteration_def scrape_and_evaluate_def Let_def split: sum.splits)

lemma ex_env_verdict_yes:
  "evaluateAnswerWithLLM (lang (ex_env reply_yes)) (completeEvaluate (ex_env reply_yes) it) q spans
     = \<lparr>answered = True, confidence = 1, missing_facts = []\<rparr>"
  by (simp add: evaluateAnswerWithLLM_def ex_env_def ex_lang_def verdict_of_json_def
      get_prop_def Boolean_of_def Number_or_0_def)

lemma ex_env_verdict_no:
  "evaluateAnswerWithLLM (lang (ex_env reply_no)) (completeEvaluate (ex_env reply_no) it) q spans
     = \<lparr>answered = False, confidence = 0, missing_facts = [''range'']\<rparr>"
  by (simp add: evaluateAnswerWithLLM_def ex_env_def ex_lang_def verdict_of_json_def
      get_prop_def Boolean_of_def Number_or_0_def String_of_def reply_yes_def reply_no_def)

lemma ex_env_search: "\<not> isl (search (ex_env reply) it i q)"
  by (simp add: ex_env_def)

lemma placeholder_fields:
  "d_metadata (document (placeholder sr msg)) =
     Some \<lparr>statusCode = 500, error = Some msg, proxyUsed = Some ''basic''\<rparr> \<and>
   costTracking (placeholder sr msg) = EmptyCostTracking"
  by (simp add: placeholder_def)

lemma dispatch_length: "length (dispatch e it inputs) = length inputs"
  by (simp add: dispatch_def)

lemma dispatch_nth:
  "i < length inputs \<Longrightarrow> dispatch e it inputs ! i = scrapeSearchResult e it i (inputs ! i)"
  by (simp add: dispatch_def nth_enumerate_eq)

lemma scrape_and_evaluate_calls:
  "ir_credit_calls (scrape_and_evaluate e body it qs sr) =
     dispatch e it (ir_dispatched (scrape_and_evaluate e body it qs sr)) \<and>
   ir_dispatched (scrape_and_evaluate e body it qs sr) = map scrapeInput (itemsToScrape e sr)"
  by (simp add: scrape_and_evaluate_def Let_def)

lemma scrapeSearchResult_start_fails:
  "startScrapeJob e it i sr = Inl msg \<Longrightarrow> scrapeSearchResult e it i sr = placeholder sr msg"
  by (simp add: scrapeSearchResult_def)

lemma scrapeSearchResult_wait_fails:
  "startScrapeJob e it i sr = Inr jobId \<Longrightarrow> waitForJob e jobId = Inl msg \<Longrightarrow>
   scrapeSearchResult e it i sr = placeholder sr msg"
  by (simp add: scrapeSearchResult_def)

lemma scrapeSearchResult_remove_fails:
  "startScrapeJob e it i sr = Inr jobId \<Longrightarrow> waitForJob e jobId = Inr doc \<Longrightarrow>
   removeJob e jobId = Some msg \<Longrightarrow> scrapeSearchResult e it i sr = placeholder sr msg"
  by (simp add: scrapeSearchResult_def)

lemma scrapeSearchResult_cost_fails:
  "startScrapeJob e it i sr = Inr jobId \<Longrightarrow> waitForJob e jobId = Inr doc \<Longrightarrow>
   removeJob e jobId = None \<Longrightarrow> USE_DB_AUTHENTICATION e \<Longrightarrow>
   costTrackingQuery e jobId = Inl msg \<Longrightarrow> scrapeSearchResult e it i sr = placeholder sr msg"
  by (simp add: scrapeSearchResult_def)

lemma scrapeSearchResult_succeeds:
  "startScrapeJob e it i sr = Inr jobId \<Longrightarrow> waitForJob e jobId = Inr doc \<Longrightarrow>
   removeJob e jobId = None \<Longrightarrow>
   (USE_DB_AUTHENTICATION e \<longrightarrow> \<not> isl (costTrackingQuery e jobId)) \<Longrightarrow>
   document (scrapeSearchResult e it i sr) = with_search_result sr doc"
  by (cases "costTrackingQuery e jobId") (simp_all add: scrapeSearchResult_def)



lemma itemsToScrape_not_blocked:
  "x \<in> set (itemsToScrape e sr) \<Longrightarrow> \<not> isUrlBlocked e (s_url (scrapeInput x))"
  by (auto simp: itemsToScrape_def split: option.splits)

lemma itemsToScrape_without_blocked:
  "itemsToScrape e (without_blocked e sr) = itemsToScrape e sr"
proof -
  have f: "filter P (filter Q (filter P xs)) = filter P (filter Q xs)"
    for P Q :: "item \<Rightarrow> bool" and xs
    by (induction xs) auto
  show ?thesis
    by (cases "web sr"; cases "news sr"; cases "images sr")
       (simp_all add: itemsToScrape_def without_blocked_def f del: filter_filter)
qed

lemma agent_loop_unrolled:
  "agent_loop e body 0 st =
     (case run_iteration e body 0 (gapHint st) of
        Inl err \<Rightarrow> Inl err
      | Inr r0 \<Rightarrow>
          if ir_answered r0 then
            Inr \<lparr>finalSearchResponse = Some (ir_response r0), credits_billed = ir_credits r0,
                 gapHint = ir_gapHint r0, passes = passes st @ [r0]\<rparr>
          else
            (case run_iteration e body 1 (ir_gapHint r0) of
               Inl err \<Rightarrow> Inl err
             | Inr r1 \<Rightarrow>
                 Inr \<lparr>finalSearchResponse = Some (ir_response r1), credits_billed = ir_credits r1,
                      gapHint = ir_gapHint r1, passes = passes st @ [r0, r1]\<rparr>))"
proof (cases "run_iteration e body 0 (gapHint st)")
  case (Inl err)
  then show ?thesis by (subst agent_loop.simps) (simp add: MAX_ITERATIONS_def)
next
  case r0: (Inr r0)
  show ?thesis
  proof (cases "ir_answered r0")
    case True
    then show ?thesis using r0 agent_loop_stop [OF r0 True] by simp
  next
    case False
    show ?thesis
    proof (cases "run_iteration e body 1 (ir_gapHint r0)")
      case (Inl err)
      let ?st1 = "\<lparr>finalSearchResponse = Some (ir_response r0), credits_billed = ir_credits r0,
          gapHint = ir_gapHint r0, passes = passes st @ [r0]\<rparr>"
      have "agent_loop e body 1 ?st1 = Inl err"
        using Inl by (subst agent_loop.simps) (simp add: MAX_ITERATIONS_def)
      then show ?thesis
        using r0 False Inl by (subst agent_loop.simps) (simp add: MAX_ITERATIONS_def Let_def)
    next
      case (Inr r1)
      then show ?thesis using r0 False agent_loop_exhaust [OF r0 False Inr] by simp
    qed
  qed
qed

lemma run_iteration_shape:
  assumes "run_iteration e body it g = Inr r"
  shows "\<exists>qs sr. r = scrape_and_evaluate e body it qs sr"
  using assms by (auto simp: run_iteration_def Let_def split: sum.splits)

lemma searchController_iterations:
  assumes "r \<in> set (iterations (searchController e req))"
  shows "\<exists>body it qs sr. r = scrape_and_evaluate e body it qs sr"
proof -
  from assms obtain body where b: "parsed_body req = Some body" "\<not> forceZDR req"
    by (auto simp: searchController_def split: if_splits option.splits)
  show ?thesis
  proof (cases "run_iteration e body 0 None")
    case (Inl err)
    then show ?thesis
      using assms b
      by (cases err) (simp_all add: searchController_def agent_loop_unrolled initial_state_def)
  next
    case r0: (Inr r0)
    show ?thesis
    proof (cases "ir_answered r0")
      case True
      then have "r = r0"
        using assms b r0
        by (simp add: searchController_def agent_loop_unrolled initial_state_def)
      then show ?thesis using run_iteration_shape [OF r0] by blast
    next
      case False
      show ?thesis
      proof (cases "run_iteration e body 1 (ir_gapHint r0)")
        case (Inl err)
        then show ?thesis
          using assms b r0 False
          by (cases err) (simp_all add: searchController_def agent_loop_unrolled initial_state_def)
      next
        case (Inr r1)
        then have "r = r0 \<or> r = r1"
          using assms b r0 False
          by (auto simp: searchController_def agent_loop_unrolled initial_state_def)
        then show ?thesis using run_iteration_shape [OF r0] run_iteration_shape [OF Inr] by blast
      qed
    qed
  qed
qed

lemma searchController_last:
  assumes "response (searchController e req) = Ok200 resp c"
  shows "iterations (searchController e req) \<noteq> [] \<and>
         c = ir_credits (last (iterations (searchController e req))) \<and>
         resp = ir_response (last (iterations (searchController e req)))"
proof -
  from assms obtain body where b: "parsed_body req = Some body" "\<not> forceZDR req"
    by (auto simp: searchController_def split: if_splits option.splits)
  show ?thesis
    using assms b
    by (auto simp: searchController_def agent_loop_unrolled initial_state_def
        split: sum.splits failure.splits if_splits)
qed

lemma credits_for_ok:
  "all_settled (credit_results e docs) = Inr cs \<Longrightarrow> credits_for e n docs = sum_list cs"
  by (simp add: credits_for_def credit_results_def)

lemma credits_for_fallback:
  "all_settled (credit_results e docs) = Inl err \<Longrightarrow> credits_for e n docs = int n"
  by (simp add: credits_for_def credit_results_def)

lemma all_settled_length: "all_settled ps = Inr vs \<Longrightarrow> length vs = length ps"
proof (induction ps arbitrary: vs)
  case Nil
  then show ?case by simp
next
  case (Cons p ps)
  then show ?case by (cases p) (auto split: sum.splits)
qed

lemma scrape_and_evaluate_credits:
  "ir_credits (scrape_and_evaluate e body it qs sr) =
     credits_for e (count_of (web sr) + count_of (images sr) + count_of (news sr))
       (dispatch e it (map scrapeInput (itemsToScrape e sr)))"
  by (simp add: scrape_and_evaluate_def Let_def)

lemma resultsMap_keys_aux:
  "foldl (\<lambda>m (it, d). m(s_url (scrapeInput it) \<mapsto> document d)) m0 ps k = Some v \<Longrightarrow>
   m0 k = Some v \<or> k \<in> (\<lambda>p. s_url (scrapeInput (fst p))) ` set ps"
proof (induction ps arbitrary: m0)
  case Nil
  then show ?case by simp
next
  case (Cons p ps)
  obtain x d where p: "p = (x, d)" by (cases p)
  from Cons.prems have
    "foldl (\<lambda>m (it, d). m(s_url (scrapeInput it) \<mapsto> document d))
       (m0(s_url (scrapeInput x) \<mapsto> document d)) ps k = Some v"
    by (simp only: p foldl_Cons prod.case)
  from Cons.IH [OF this] show ?case
    by (auto simp: p split: if_splits)
qed

lemma resultsMap_keys:
  assumes "resultsMap items docs k = Some v"
  shows "k \<in> (\<lambda>x. s_url (scrapeInput x)) ` set items"
proof -
  from resultsMap_keys_aux [OF assms [unfolded resultsMap_def]]
  have "k \<in> (\<lambda>p. s_url (scrapeInput (fst p))) ` set (zip items docs)" by simp
  then show ?thesis by (auto dest: set_zip_leftD)
qed

lemma resultsMap_blocked:
  assumes "isUrlBlocked e u"
  shows "resultsMap (itemsToScrape e sr) docs u = None"
proof (rule ccontr)
  assume "resultsMap (itemsToScrape e sr) docs u \<noteq> None"
  then obtain v where "resultsMap (itemsToScrape e sr) docs u = Some v" by auto
  from resultsMap_keys [OF this] obtain x where
    "x \<in> set (itemsToScrape e sr)" "u = s_url (scrapeInput x)" by auto
  then show False using assms itemsToScrape_not_blocked by blast
qed

lemma rerank_keeps:
  assumes "it \<in> set ws"
  shows "\<exists>it' \<in> set (rerank qs ws). it' = it\<lparr>position := position it'\<rparr>"
proof -
  let ?scored = "map (\<lambda>(idx, it). (it, simSum_guarded (snippet_text it) qs, idx)) (enumerate 0 ws)"
  let ?cmp = "\<lambda>a b :: item \<times> real \<times> nat.
      if fst (snd b) \<noteq> fst (snd a) then fst (snd b) - fst (snd a)
      else real (snd (snd a)) - real (snd (snd b))"
  let ?sorted = "array_sort ?cmp ?scored"
  from assms obtain i where i: "i < length ws" "ws ! i = it" by (auto simp: in_set_conv_nth)
  have si: "i < length ?scored" using i by simp
  have eq: "?scored ! i = (it, simSum_guarded (snippet_text it) qs, i)"
    using i by (simp add: nth_enumerate_eq)
  have "?scored ! i \<in> set ?scored" by (rule nth_mem [OF si])
  then have "(it, simSum_guarded (snippet_text it) qs, i) \<in> set ?scored"
    by (simp only: eq)
  then have "(it, simSum_guarded (snippet_text it) qs, i) \<in> set ?sorted"
    by (simp only: set_array_sort)
  then obtain j where j: "j < length ?sorted"
      "?sorted ! j = (it, simSum_guarded (snippet_text it) qs, i)"
    unfolding in_set_conv_nth by blast
  have r: "rerank qs ws =
      map (\<lambda>(i, x). (fst x)\<lparr>position := Some (real i + 1)\<rparr>) (enumerate 0 ?sorted)"
    by (simp add: rerank_def Let_def)
  have lj: "j < length (rerank qs ws)" unfolding r using j(1) by simp
  have nj: "rerank qs ws ! j = it\<lparr>position := Some (real j + 1)\<rparr>"
    unfolding r using j by (simp add: nth_enumerate_eq)
  have "rerank qs ws ! j \<in> set (rerank qs ws)" by (rule nth_mem [OF lj])
  then have m: "it\<lparr>position := Some (real j + 1)\<rparr> \<in> set (rerank qs ws)"
    by (simp only: nj)
  show ?thesis
    by (rule bexI [OF _ m]) simp
qed

lemma enriched_blocked_web:
  assumes "it \<in> set (or_nil (web sr))" and "isUrlBlocked e (url it)"
  shows "it \<in> set (or_nil (web (enriched (resultsMap (itemsToScrape e sr) docs) sr)))"
proof -
  have "enrich it (resultsMap (itemsToScrape e sr) docs (url it)) = it"
    using resultsMap_blocked [OF assms(2)] by (simp add: enrich_def)
  then show ?thesis
    using assms(1) by (cases "web sr") (force simp: enriched_def or_nil_def)+
qed

lemma enriched_blocked_news:
  assumes "it \<in> set (or_nil (news sr))" and "isUrlBlocked e (url it)"
  shows "it \<in> set (or_nil (news (enriched (resultsMap (itemsToScrape e sr) docs) sr)))"
proof -
  have "enrich it (if truthy (url it) then resultsMap (itemsToScrape e sr) docs (url it) else None)
          = it"
    using resultsMap_blocked [OF assms(2)] by (simp add: enrich_def)
  then show ?thesis
    using assms(1) by (cases "news sr") (force simp: enriched_def or_nil_def)+
qed

lemma enriched_blocked_images:
  assumes "it \<in> set (or_nil (images sr))" and "isUrlBlocked e (url it)"
  shows "it \<in> set (or_nil (images (enriched (resultsMap (itemsToScrape e sr) docs) sr)))"
proof -
  have "enrich it (if truthy (url it) then resultsMap (itemsToScrape e sr) docs (url it) else None)
          = it"
    using resultsMap_blocked [OF assms(2)] by (simp add: enrich_def)
  then show ?thesis
    using assms(1) by (cases "images sr") (force simp: enriched_def or_nil_def)+
qed

lemma scrape_and_evaluate_response:
  "ir_response (scrape_and_evaluate e body it qs sr) =
     (enriched (resultsMap (itemsToScrape e sr) (dispatch e it (map scrapeInput (itemsToScrape e sr)))) sr)
       \<lparr>web := map_option (rerank qs)
          (web (enriched (resultsMap (itemsToScrape e sr)
             (dispatch e it (map scrapeInput (itemsToScrape e sr)))) sr))\<rparr>"
  by (simp add: scrape_and_evaluate_def Let_def)

section \<open>The controller: the claims\<close>

text \<open>
  C3. For a request that passes validation: if the first iteration runs to its end and
  its evaluation yields \<open>answered = true\<close> with confidence at least 0.6, the loop
  performs exactly one iteration; if the first evaluation does not (\<open>answered = false\<close>
  or confidence below 0.6) and the second iteration runs to its end, the loop performs
  exactly \<open>MAX_ITERATIONS = 2\<close> iterations. In both cases the response is the complete
  result of the last iteration, re-ranked and with its credits: the loop is left only
  after the body has run to its end.
\<close>

theorem controller_iteration_count:
  assumes "\<not> forceZDR req" and "parsed_body req = Some body"
  shows "(run_iteration e body 0 None = Inr r \<and> converged (ir_verdict r) \<longrightarrow>
            iterations (searchController e req) = [r] \<and>
            response (searchController e req) = Ok200 (ir_response r) (ir_credits r)) \<and>
         (run_iteration e body 0 None = Inr r0 \<and> \<not> converged (ir_verdict r0) \<and>
          run_iteration e body 1 (ir_gapHint r0) = Inr r1 \<longrightarrow>
            iterations (searchController e req) = [r0, r1] \<and>
            length (iterations (searchController e req)) = MAX_ITERATIONS \<and>
            response (searchController e req) = Ok200 (ir_response r1) (ir_credits r1))"
proof (intro conjI impI)
  assume a: "run_iteration e body 0 None = Inr r \<and> converged (ir_verdict r)"
  then have "ir_answered r" using run_iteration_answered [of e body 0 None r] by simp
  with a have "agent_loop e body 0 initial_state =
     Inr \<lparr>finalSearchResponse = Some (ir_response r), credits_billed = ir_credits r,
          gapHint = ir_gapHint r, passes = passes initial_state @ [r]\<rparr>"
    by (intro agent_loop_stop) (simp_all add: initial_state_def)
  then show "iterations (searchController e req) = [r]"
    and "response (searchController e req) = Ok200 (ir_response r) (ir_credits r)"
    using assms by (simp_all add: searchController_def initial_state_def)
next
  assume a: "run_iteration e body 0 None = Inr r0 \<and> \<not> converged (ir_verdict r0) \<and>
          run_iteration e body 1 (ir_gapHint r0) = Inr r1"
  then have "\<not> ir_answered r0" using run_iteration_answered [of e body 0 None r0] by simp
  with a have "agent_loop e body 0 initial_state =
     Inr \<lparr>finalSearchResponse = Some (ir_response r1), credits_billed = ir_credits r1,
          gapHint = ir_gapHint r1, passes = passes initial_state @ [r0, r1]\<rparr>"
    by (intro agent_loop_exhaust) (simp_all add: initial_state_def)
  then show "iterations (searchController e req) = [r0, r1]"
    and "length (iterations (searchController e req)) = MAX_ITERATIONS"
    and "response (searchController e req) = Ok200 (ir_response r1) (ir_credits r1)"
    using assms by (simp_all add: searchController_def initial_state_def MAX_ITERATIONS_def)
qed

theorem controller_iteration_count_witness:
  "\<not> forceZDR ex_req \<and> parsed_body ex_req = Some ex_body \<and>
   length (iterations (searchController (ex_env reply_yes) ex_req)) = 1 \<and>
   length (iterations (searchController (ex_env reply_no) ex_req)) = 2"
proof -
  have z: "\<not> forceZDR ex_req" "parsed_body ex_req = Some ex_body"
    by (simp_all add: ex_req_def)
  obtain r where r: "run_iteration (ex_env reply_yes) ex_body 0 None = Inr r"
    using run_iteration_returns [OF ex_env_search] by blast
  have cr: "converged (ir_verdict r)"
    using run_iteration_verdict [OF r] by (auto simp: ex_env_verdict_yes converged_def)
  obtain r0 where r0: "run_iteration (ex_env reply_no) ex_body 0 None = Inr r0"
    using run_iteration_returns [OF ex_env_search] by blast
  have cr0: "\<not> converged (ir_verdict r0)"
    using run_iteration_verdict [OF r0] by (auto simp: ex_env_verdict_no converged_def)
  obtain r1 where r1: "run_iteration (ex_env reply_no) ex_body 1 (ir_gapHint r0) = Inr r1"
    using run_iteration_returns [OF ex_env_search] by blast
  show ?thesis
    using z r cr r0 cr0 r1
      controller_iteration_count [OF z, of "ex_env reply_yes" r]
      controller_iteration_count [OF z, of "ex_env reply_no" _ r0 r1]
    by simp
qed

text \<open>
  C5. In synchronous mode a batch of \<open>N\<close> dispatched items returns \<open>N\<close> entries,
  entry \<open>i\<close> being the result of \<open>scrapeSearchResult\<close> on input \<open>i\<close> alone. When
  the submission, the wait for the job (a timeout included), the removal of the job or
  the cost lookup of an item fails, its entry is the placeholder for that input:
  status code 500, the error message, and empty cost data. When they all succeed, its
  entry is the job's document over the search result. The iteration passes all \<open>N\<close>
  entries on; it does not fail.
\<close>

theorem dispatch_resilient:
  "length (dispatch e it inputs) = length inputs \<and>
   (\<forall>i < length inputs.
      dispatch e it inputs ! i = scrapeSearchResult e it i (inputs ! i) \<and>
      (\<forall>msg. startScrapeJob e it i (inputs ! i) = Inl msg \<longrightarrow>
         dispatch e it inputs ! i = placeholder (inputs ! i) msg) \<and>
      (\<forall>jobId msg. startScrapeJob e it i (inputs ! i) = Inr jobId \<and>
         waitForJob e jobId = Inl msg \<longrightarrow>
         dispatch e it inputs ! i = placeholder (inputs ! i) msg) \<and>
      (\<forall>jobId doc msg. startScrapeJob e it i (inputs ! i) = Inr jobId \<and>
         waitForJob e jobId = Inr doc \<and> removeJob e jobId = Some msg \<longrightarrow>
         dispatch e it inputs ! i = placeholder (inputs ! i) msg) \<and>
      (\<forall>jobId doc msg. startScrapeJob e it i (inputs ! i) = Inr jobId \<and>
         waitForJob e jobId = Inr doc \<and> removeJob e jobId = None \<and>
         USE_DB_AUTHENTICATION e \<and> costTrackingQuery e jobId = Inl msg \<longrightarrow>
         dispatch e it inputs ! i = placeholder (inputs ! i) msg) \<and>
      (\<forall>jobId doc. startScrapeJob e it i (inputs ! i) = Inr jobId \<and>
         waitForJob e jobId = Inr doc \<and> removeJob e jobId = None \<and>
         (USE_DB_AUTHENTICATION e \<longrightarrow> \<not> isl (costTrackingQuery e jobId)) \<longrightarrow>
         document (dispatch e it inputs ! i) = with_search_result (inputs ! i) doc)) \<and>
   (\<forall>sr msg.
      d_metadata (document (placeholder sr msg)) =
        Some \<lparr>statusCode = 500, error = Some msg, proxyUsed = Some ''basic''\<rparr> \<and>
      costTracking (placeholder sr msg) = EmptyCostTracking) \<and>
   (\<forall>body qs sr.
      ir_credit_calls (scrape_and_evaluate e body it qs sr) =
        dispatch e it (map scrapeInput (itemsToScrape e sr)))"
  using scrapeSearchResult_start_fails scrapeSearchResult_wait_fails
    scrapeSearchResult_remove_fails scrapeSearchResult_cost_fails scrapeSearchResult_succeeds
  by (simp add: dispatch_length dispatch_nth placeholder_fields scrape_and_evaluate_calls)

theorem dispatch_resilient_witness:
  "length (dispatch ex_env_timeout 0 ex_inputs) = 5 \<and>
   map (\<lambda>d. map_option statusCode (d_metadata (document d))) (dispatch ex_env_timeout 0 ex_inputs)
     = [None, None, Some 500, None, None] \<and>
   dispatch ex_env_timeout 0 ex_inputs ! 2 = placeholder (ex_inputs ! 2) ''timeout'' \<and>
   costTracking (dispatch ex_env_timeout 0 ex_inputs ! 2) = EmptyCostTracking"
proof -
  have n: "length ex_inputs = 5" by (simp add: ex_inputs_def)
  have s: "startScrapeJob ex_env_timeout 0 2 (ex_inputs ! 2) = Inr 2 \<and>
           waitForJob ex_env_timeout 2 = Inl ''timeout''"
    by (simp add: ex_env_timeout_def ex_env_def)
  have v: "map (\<lambda>d. map_option statusCode (d_metadata (document d)))
             (dispatch ex_env_timeout 0 ex_inputs) = [None, None, Some 500, None, None]"
    by code_simp
  have lt: "(2::nat) < length ex_inputs" using n by simp
  note th = dispatch_resilient [of ex_env_timeout 0 ex_inputs]
  have len: "length (dispatch ex_env_timeout 0 ex_inputs) = length ex_inputs"
    using th by blast
  have p2: "dispatch ex_env_timeout 0 ex_inputs ! 2 = placeholder (ex_inputs ! 2) ''timeout''"
    using th s lt by blast
  show ?thesis using len n p2 v by (simp add: placeholder_def)
qed




text \<open>
  C6, as stated: a blocked URL contributes 0 to the credit total, so taking the
  blocked items out of the result lists leaves the total as it is. When the credit
  computation is rejected, the total is the number of limited results, blocked ones
  included: with one blocked and one other web result it is 2, and 1 without the
  blocked result.
\<close>

theorem blocked_billed_counterexample:
  "isUrlBlocked ex_env_credit_down (Some ''b'') \<and>
   ir_credits (scrape_and_evaluate ex_env_credit_down ex_body 0 [''ev range'']
      (without_blocked ex_env_credit_down ex_selected)) = 1 \<and>
   ir_credits (scrape_and_evaluate ex_env_credit_down ex_body 0 [''ev range''] ex_selected) = 2 \<and>
   creditsUsed (searchController ex_env_credit_down ex_req) = Some 2"
  by code_simp

text \<open>
  C6, amended. No scrape input of any iteration has a blocked URL, so no scrape job is
  submitted for a blocked item. When every call of the credit computation of an
  iteration returns, the credit count of the iteration is the sum of the per-item
  values, one per dispatched item, and it is the same as for the result lists without
  the blocked items: a blocked item contributes 0.
\<close>

theorem blocked_not_dispatched_nor_counted:
  "(\<forall>r \<in> set (iterations (searchController e req)).
      \<forall>si \<in> set (ir_dispatched r). \<not> isUrlBlocked e (s_url si)) \<and>
   (\<forall>x \<in> set (itemsToScrape e sr). \<not> isUrlBlocked e (s_url (scrapeInput x))) \<and>
   (\<forall>cs. all_settled (credit_results e (ir_credit_calls (scrape_and_evaluate e body it qs sr)))
            = Inr cs \<longrightarrow>
      ir_credits (scrape_and_evaluate e body it qs sr) = sum_list cs \<and>
      length cs = length (itemsToScrape e sr) \<and>
      ir_credits (scrape_and_evaluate e body it qs (without_blocked e sr)) =
        ir_credits (scrape_and_evaluate e body it qs sr))"
proof (intro conjI ballI allI impI)
  fix r si
  assume "r \<in> set (iterations (searchController e req))" and si: "si \<in> set (ir_dispatched r)"
  then obtain body' it' qs' sr' where "r = scrape_and_evaluate e body' it' qs' sr'"
    using searchController_iterations by blast
  then have "ir_dispatched r = map scrapeInput (itemsToScrape e sr')"
    by (simp add: scrape_and_evaluate_calls)
  then show "\<not> isUrlBlocked e (s_url si)" using si itemsToScrape_not_blocked by auto
next
  fix x assume "x \<in> set (itemsToScrape e sr)"
  then show "\<not> isUrlBlocked e (s_url (scrapeInput x))" by (rule itemsToScrape_not_blocked)
next
  fix cs
  assume a: "all_settled (credit_results e (ir_credit_calls (scrape_and_evaluate e body it qs sr)))
            = Inr cs"
  let ?docs = "dispatch e it (map scrapeInput (itemsToScrape e sr))"
  have c: "ir_credit_calls (scrape_and_evaluate e body it qs sr) = ?docs"
    by (simp add: scrape_and_evaluate_calls)
  from a have ok: "all_settled (credit_results e ?docs) = Inr cs" by (simp only: c)
  show "ir_credits (scrape_and_evaluate e body it qs sr) = sum_list cs"
    using credits_for_ok [OF ok] by (simp add: scrape_and_evaluate_credits)
  show "length cs = length (itemsToScrape e sr)"
    using all_settled_length [OF ok] by (simp add: credit_results_def dispatch_length)
  show "ir_credits (scrape_and_evaluate e body it qs (without_blocked e sr)) =
        ir_credits (scrape_and_evaluate e body it qs sr)"
    using credits_for_ok [OF ok]
    by (simp add: scrape_and_evaluate_credits itemsToScrape_without_blocked)
qed

theorem blocked_not_dispatched_nor_counted_witness:
  "isUrlBlocked (ex_env reply_no) (Some ''b'') \<and>
   map s_url (concat (map ir_dispatched (iterations (searchController (ex_env reply_no) ex_req))))
     = [Some ''a'', Some ''a''] \<and>
   list_all (\<lambda>si. \<not> isUrlBlocked (ex_env reply_no) (s_url si))
     (concat (map ir_dispatched (iterations (searchController (ex_env reply_no) ex_req)))) \<and>
   ir_credits (scrape_and_evaluate (ex_env reply_no) ex_body 0 [''ev range''] ex_selected) = 1 \<and>
   ir_credits (scrape_and_evaluate (ex_env reply_no) ex_body 0 [''ev range'']
      (without_blocked (ex_env reply_no) ex_selected)) = 1"
proof -
  have b: "isUrlBlocked (ex_env reply_no) (Some ''b'')" by (simp add: ex_env_def)
  have d: "map s_url (concat (map ir_dispatched
             (iterations (searchController (ex_env reply_no) ex_req)))) = [Some ''a'', Some ''a'']"
    by code_simp
  have c: "all_settled (credit_results (ex_env reply_no)
             (ir_credit_calls (scrape_and_evaluate (ex_env reply_no) ex_body 0 [''ev range'']
                ex_selected))) = Inr [1]"
    by code_simp
  note th = blocked_not_dispatched_nor_counted
      [of "ex_env reply_no" ex_req ex_selected ex_body 0 "[''ev range'']"]
  have "\<forall>r \<in> set (iterations (searchController (ex_env reply_no) ex_req)).
      \<forall>si \<in> set (ir_dispatched r). \<not> isUrlBlocked (ex_env reply_no) (s_url si)"
    using th by blast
  then have 1: "list_all (\<lambda>si. \<not> isUrlBlocked (ex_env reply_no) (s_url si))
     (concat (map ir_dispatched (iterations (searchController (ex_env reply_no) ex_req))))"
    by (auto simp: list_all_iff)
  have 2: "ir_credits (scrape_and_evaluate (ex_env reply_no) ex_body 0 [''ev range''] ex_selected)
             = sum_list [1] \<and>
           ir_credits (scrape_and_evaluate (ex_env reply_no) ex_body 0 [''ev range'']
             (without_blocked (ex_env reply_no) ex_selected)) =
           ir_credits (scrape_and_evaluate (ex_env reply_no) ex_body 0 [''ev range''] ex_selected)"
    using th c by blast
  show ?thesis using b d 1 2 by simp
qed

text \<open>
  C7, as stated: no item with a blocked URL is in the category lists of the response.
  With \<open>b\<close> on the blocklist and among the web results, the second web item of
  the response has the URL \<open>b\<close>.
\<close>

theorem blocked_in_response_counterexample:
  "length (emitted_items (searchController (ex_env reply_yes) ex_req)) = 2 \<and>
   url (emitted_items (searchController (ex_env reply_yes) ex_req) ! 1) = Some ''b'' \<and>
   isUrlBlocked (ex_env reply_yes)
     (url (emitted_items (searchController (ex_env reply_yes) ex_req) ! 1))"
  by code_simp

text \<open>
  C7, amended. The blocklist filter applies to the scrape dispatch only: no scrape
  input has a blocked URL. A blocked item of the limited result lists is still in the
  response, without scraped content: in the news and image lists as it was, in the web
  list as it was up to the position that the final re-ranking assigns.
\<close>

theorem blocked_items_stay_in_response:
  "(\<forall>si \<in> set (ir_dispatched (scrape_and_evaluate e body it qs sr)).
      \<not> isUrlBlocked e (s_url si)) \<and>
   (\<forall>x \<in> set (or_nil (web sr)). isUrlBlocked e (url x) \<longrightarrow>
      (\<exists>x' \<in> set (or_nil (web (ir_response (scrape_and_evaluate e body it qs sr)))).
         x' = x\<lparr>position := position x'\<rparr>)) \<and>
   (\<forall>x \<in> set (or_nil (news sr)). isUrlBlocked e (url x) \<longrightarrow>
      x \<in> set (or_nil (news (ir_response (scrape_and_evaluate e body it qs sr))))) \<and>
   (\<forall>x \<in> set (or_nil (images sr)). isUrlBlocked e (url x) \<longrightarrow>
      x \<in> set (or_nil (images (ir_response (scrape_and_evaluate e body it qs sr)))))"
proof (intro conjI ballI impI)
  fix si assume "si \<in> set (ir_dispatched (scrape_and_evaluate e body it qs sr))"
  then show "\<not> isUrlBlocked e (s_url si)"
    using itemsToScrape_not_blocked by (auto simp: scrape_and_evaluate_calls)
next
  let ?docs = "dispatch e it (map scrapeInput (itemsToScrape e sr))"
  let ?en = "enriched (resultsMap (itemsToScrape e sr) ?docs) sr"
  fix x assume x: "x \<in> set (or_nil (web sr))" "isUrlBlocked e (url x)"
  have "x \<in> set (or_nil (web ?en))" by (rule enriched_blocked_web [OF x])
  then obtain ws where ws: "web ?en = Some ws" "x \<in> set ws"
    by (cases "web ?en") (simp_all add: or_nil_def)
  from rerank_keeps [OF ws(2), of qs] obtain x' where
    "x' \<in> set (rerank qs ws)" "x' = x\<lparr>position := position x'\<rparr>" by blast
  then show "\<exists>x' \<in> set (or_nil (web (ir_response (scrape_and_evaluate e body it qs sr)))).
         x' = x\<lparr>position := position x'\<rparr>"
    using ws(1) by (auto simp: scrape_and_evaluate_response or_nil_def)
next
  fix x assume x: "x \<in> set (or_nil (news sr))" "isUrlBlocked e (url x)"
  show "x \<in> set (or_nil (news (ir_response (scrape_and_evaluate e body it qs sr))))"
    using enriched_blocked_news [OF x] by (simp add: scrape_and_evaluate_response)
next
  fix x assume x: "x \<in> set (or_nil (images sr))" "isUrlBlocked e (url x)"
  show "x \<in> set (or_nil (images (ir_response (scrape_and_evaluate e body it qs sr))))"
    using enriched_blocked_images [OF x] by (simp add: scrape_and_evaluate_response)
qed

theorem blocked_items_stay_in_response_witness:
  "isUrlBlocked (ex_env reply_yes) (url (or_nil (web ex_selected) ! 1)) \<and>
   map s_url (ir_dispatched (scrape_and_evaluate (ex_env reply_yes) ex_body 0 [''ev range'']
      ex_selected)) = [Some ''a''] \<and>
   (\<exists>x' \<in> set (or_nil (web (ir_response
        (scrape_and_evaluate (ex_env reply_yes) ex_body 0 [''ev range''] ex_selected)))).
      x' = (or_nil (web ex_selected) ! 1)\<lparr>position := position x'\<rparr>)"
proof -
  have b: "isUrlBlocked (ex_env reply_yes) (url (or_nil (web ex_selected) ! 1))" by code_simp
  have m: "or_nil (web ex_selected) ! 1 \<in> set (or_nil (web ex_selected))"
    by (simp add: ex_selected_def or_nil_def)
  have d: "map s_url (ir_dispatched (scrape_and_evaluate (ex_env reply_yes) ex_body 0
      [''ev range''] ex_selected)) = [Some ''a'']" by code_simp
  note th = blocked_items_stay_in_response
      [of "ex_env reply_yes" ex_body 0 "[''ev range'']" ex_selected]
  have "\<forall>x \<in> set (or_nil (web ex_selected)). isUrlBlocked (ex_env reply_yes) (url x) \<longrightarrow>
      (\<exists>x' \<in> set (or_nil (web (ir_response
          (scrape_and_evaluate (ex_env reply_yes) ex_body 0 [''ev range''] ex_selected)))).
         x' = x\<lparr>position := position x'\<rparr>)"
    using th by (elim conjE)
  then show ?thesis using b m d by blast
qed

text \<open>
  C8, as stated: the credit computation is called for the successfully produced items
  only, and the total is the sum of those values. When every job times out, nothing is
  produced successfully, yet the computation is called on the placeholder of the one
  dispatched item in each of the two iterations, and the request's total is 1.
\<close>

theorem credit_for_failed_scrape_counterexample:
  "length (concat (map ir_credit_calls (iterations (searchController ex_env_scrape_down ex_req))))
     = 2 \<and>
   list_all is_error_item
     (concat (map ir_credit_calls (iterations (searchController ex_env_scrape_down ex_req)))) \<and>
   creditsUsed (searchController ex_env_scrape_down ex_req) = Some 1"
  by code_simp

text \<open>
  C8, amended. In each iteration the credit computation is called once per dispatched
  item, in dispatch order, on the entry the dispatch returned for it (the placeholder
  with empty cost data when the scrape failed). When all these calls return, the
  credit count of the iteration is the sum of their values; when one is rejected, it is
  the number of limited results. The request's total is the credit count of the last
  iteration that ran.
\<close>

theorem credits_once_per_dispatched_item:
  "ir_credit_calls (scrape_and_evaluate e body it qs sr) =
     dispatch e it (ir_dispatched (scrape_and_evaluate e body it qs sr)) \<and>
   length (ir_credit_calls (scrape_and_evaluate e body it qs sr)) = length (itemsToScrape e sr) \<and>
   (\<forall>cs. all_settled (credit_results e (ir_credit_calls (scrape_and_evaluate e body it qs sr)))
            = Inr cs \<longrightarrow>
      ir_credits (scrape_and_evaluate e body it qs sr) = sum_list cs) \<and>
   (\<forall>err. all_settled (credit_results e (ir_credit_calls (scrape_and_evaluate e body it qs sr)))
            = Inl err \<longrightarrow>
      ir_credits (scrape_and_evaluate e body it qs sr) =
        int (count_of (web sr) + count_of (images sr) + count_of (news sr))) \<and>
   (\<forall>resp c. response (searchController e req) = Ok200 resp c \<longrightarrow>
      iterations (searchController e req) \<noteq> [] \<and>
      c = ir_credits (last (iterations (searchController e req))))"
proof (intro conjI allI impI)
  let ?docs = "dispatch e it (map scrapeInput (itemsToScrape e sr))"
  have c: "ir_credit_calls (scrape_and_evaluate e body it qs sr) = ?docs"
    by (simp add: scrape_and_evaluate_calls)
  show "ir_credit_calls (scrape_and_evaluate e body it qs sr) =
     dispatch e it (ir_dispatched (scrape_and_evaluate e body it qs sr))"
    by (simp add: scrape_and_evaluate_calls)
  show "length (ir_credit_calls (scrape_and_evaluate e body it qs sr)) = length (itemsToScrape e sr)"
    by (simp add: c dispatch_length)
  show "ir_credits (scrape_and_evaluate e body it qs sr) = sum_list cs"
    if "all_settled (credit_results e (ir_credit_calls (scrape_and_evaluate e body it qs sr)))
            = Inr cs" for cs
    using that credits_for_ok [of e ?docs cs] by (simp add: c scrape_and_evaluate_credits)
  show "ir_credits (scrape_and_evaluate e body it qs sr) =
        int (count_of (web sr) + count_of (images sr) + count_of (news sr))"
    if "all_settled (credit_results e (ir_credit_calls (scrape_and_evaluate e body it qs sr)))
            = Inl err" for err
    using that credits_for_fallback [of e ?docs err] by (simp add: c scrape_and_evaluate_credits)
  show "iterations (searchController e req) \<noteq> []"
    and "c = ir_credits (last (iterations (searchController e req)))"
    if "response (searchController e req) = Ok200 resp c" for resp c
    using searchController_last [OF that] by simp_all
qed

theorem credits_once_per_dispatched_item_witness:
  "map s_url (ir_dispatched (scrape_and_evaluate ex_env_scrape_down ex_body 0 [''ev range'']
      ex_selected)) = [Some ''a''] \<and>
   list_all is_error_item
     (ir_credit_calls (scrape_and_evaluate ex_env_scrape_down ex_body 0 [''ev range''] ex_selected)) \<and>
   length (ir_credit_calls
     (scrape_and_evaluate ex_env_scrape_down ex_body 0 [''ev range''] ex_selected)) = 1 \<and>
   ir_credits (scrape_and_evaluate ex_env_scrape_down ex_body 0 [''ev range''] ex_selected) = 1 \<and>
   ir_credits (scrape_and_evaluate ex_env_credit_down ex_body 0 [''ev range''] ex_selected) = 2"
proof -
  have d: "map s_url (ir_dispatched (scrape_and_evaluate ex_env_scrape_down ex_body 0
      [''ev range''] ex_selected)) = [Some ''a'']" by code_simp
  have p: "list_all is_error_item
     (ir_credit_calls (scrape_and_evaluate ex_env_scrape_down ex_body 0 [''ev range''] ex_selected))"
    by code_simp
  have n: "length (itemsToScrape ex_env_scrape_down ex_selected) = 1" by code_simp
  have ok: "all_settled (credit_results ex_env_scrape_down
     (ir_credit_calls (scrape_and_evaluate ex_env_scrape_down ex_body 0 [''ev range''] ex_selected)))
       = Inr [1]" by code_simp
  have ko: "all_settled (credit_results ex_env_credit_down
     (ir_credit_calls (scrape_and_evaluate ex_env_credit_down ex_body 0 [''ev range''] ex_selected)))
       = Inl ''unavailable''" by code_simp
  have k: "count_of (web ex_selected) + count_of (images ex_selected) + count_of (news ex_selected)
       = 2" by code_simp
  note th1 = credits_once_per_dispatched_item
      [of ex_env_scrape_down ex_body 0 "[''ev range'']" ex_selected ex_req]
  note th2 = credits_once_per_dispatched_item
      [of ex_env_credit_down ex_body 0 "[''ev range'']" ex_selected ex_req]
  have 1: "length (ir_credit_calls
     (scrape_and_evaluate ex_env_scrape_down ex_body 0 [''ev range''] ex_selected)) =
       length (itemsToScrape ex_env_scrape_down ex_selected)"
    using th1 by blast
  have 2: "ir_credits (scrape_and_evaluate ex_env_scrape_down ex_body 0 [''ev range''] ex_selected)
       = sum_list [1]"
    using th1 ok by blast
  have 3: "ir_credits (scrape_and_evaluate ex_env_credit_down ex_body 0 [''ev range''] ex_selected)
       = int (count_of (web ex_selected) + count_of (images ex_selected) + count_of (news ex_selected))"
    using th2 ko by blast
  show ?thesis using d p 1 2 3 k n by simp
qed

end
